theory Spec2Isabelle
  imports Complex_Main "HOL-Library.Word"
begin

unbundle bit_operations_syntax

section \<open>The physics engine of \<^verbatim>\<open>src/scripts/engine/physics.js\<close>\<close>

text \<open>
  The class \<^verbatim>\<open>Physics\<close> keeps three arrays of references to collider objects and mutates
  the objects in place. The same object sits in \<^verbatim>\<open>colliders\<close> and in one of
  \<^verbatim>\<open>staticColliders\<close>, \<^verbatim>\<open>dynamicColliders\<close>, and the inner loops of \<^verbatim>\<open>update\<close> read
  objects that an earlier iteration has already moved. The embedding therefore uses
  an explicit store: an object is named by a reference (a natural number), the arrays
  are lists of references, and \<open>objects\<close> maps a reference to the current fields.

  JavaScript numbers are modelled as real numbers: arithmetic is exact, and the two
  places where the source relies on \<^verbatim>\<open>Infinity\<close> (the initial slab bounds of
  \<^verbatim>\<open>raycastCollider\<close>, the initial \<^verbatim>\<open>closestDistance\<close> of \<^verbatim>\<open>raycast\<close>) or produces
  \<^verbatim>\<open>NaN\<close> (a ray of length zero) are written out. The operands of \<^verbatim>\<open>&\<close> are 32-bit
  integers, as in JavaScript. Where a property turns on rounding, as the flush
  placement of \<^verbatim>\<open>resolveCollision\<close> does, the functions concerned are given a second
  time with every arithmetic operation rounded to the nearest double
  (\<open>checkCollision_f64\<close>, \<open>resolveCollision_f64\<close>), and the property is stated there.
\<close>

subsection \<open>Collider objects\<close>

record body =
  x :: real
  y :: real
  width :: real
  height :: real
  velocityX :: real
  velocityY :: real
  prevX :: "real option"
  prevY :: "real option"
  affectedByGravity :: bool
  isStatic :: bool
  collisionLayer :: "32 word"
  collisionMask :: "32 word"
  active :: bool
  onGround :: bool
  onCollision :: bool

text \<open>
  \<open>prevX\<close> and \<open>prevY\<close> are \<open>None\<close> while the property is undefined. \<open>onCollision\<close>
  says whether the object defines the callback. The callback itself is gameplay code
  outside the engine: a call of it is recorded in the trace \<open>calls\<close> of the engine,
  together with the fields of the receiver and of the argument at the moment of the
  call, and it is taken to leave the colliders and the arrays of the engine as they
  are.
\<close>

datatype event = OnCollision nat nat body body

fun receiver :: "event \<Rightarrow> nat" where
  "receiver (OnCollision r a rb ab) = r"

fun argument :: "event \<Rightarrow> nat" where
  "argument (OnCollision r a rb ab) = a"

fun receiverSeen :: "event \<Rightarrow> body" where
  "receiverSeen (OnCollision r a rb ab) = rb"

fun argumentSeen :: "event \<Rightarrow> body" where
  "argumentSeen (OnCollision r a rb ab) = ab"

text \<open>
  The object handed to \<^verbatim>\<open>addCollider\<close>: the properties that \<^verbatim>\<open>addCollider\<close> defaults
  may be undefined (\<open>None\<close>).
\<close>

record rawCollider =
  raw_x :: real
  raw_y :: real
  raw_width :: real
  raw_height :: real
  raw_velocityX :: "real option"
  raw_velocityY :: "real option"
  raw_prevX :: "real option"
  raw_prevY :: "real option"
  raw_affectedByGravity :: "bool option"
  raw_isStatic :: "bool option"
  raw_collisionLayer :: "32 word option"
  raw_collisionMask :: "32 word option"
  raw_active :: "bool option"
  raw_onCollision :: bool

subsection \<open>The engine state and its constructor\<close>

record physics =
  gravity :: real
  friction :: real
  terminalVelocity :: real
  colliders :: "nat list"
  staticColliders :: "nat list"
  dynamicColliders :: "nat list"
  objects :: "nat \<Rightarrow> body"
  calls :: "event list"

record config =
  config_gravity :: "real option"
  config_friction :: "real option"
  config_terminalVelocity :: "real option"

text \<open>\<^verbatim>\<open>v || d\<close> on a number: an undefined or zero \<open>v\<close> gives the default.\<close>

definition orDefault :: "'a::zero option \<Rightarrow> 'a \<Rightarrow> 'a" where
  "orDefault v d = (case v of None \<Rightarrow> d | Some n \<Rightarrow> if n = 0 then d else n)"

text \<open>\<^verbatim>\<open>v !== undefined ? v : d\<close>.\<close>

definition definedOr :: "'a option \<Rightarrow> 'a \<Rightarrow> 'a" where
  "definedOr v d = (case v of None \<Rightarrow> d | Some b \<Rightarrow> b)"

definition layers_DEFAULT :: "32 word" where
  "layers_DEFAULT = 0x0001"

definition constructor :: "config \<Rightarrow> (nat \<Rightarrow> body) \<Rightarrow> physics" where
  "constructor cfg heap =
     \<lparr> gravity = orDefault (config_gravity cfg) 0.5,
       friction = orDefault (config_friction cfg) 0.8,
       terminalVelocity = orDefault (config_terminalVelocity cfg) 10,
       colliders = [],
       staticColliders = [],
       dynamicColliders = [],
       objects = heap,
       calls = [] \<rparr>"

subsection \<open>Registration\<close>

definition withDefaults :: "rawCollider \<Rightarrow> body" where
  "withDefaults c =
     \<lparr> x = raw_x c,
       y = raw_y c,
       width = raw_width c,
       height = raw_height c,
       velocityX = orDefault (raw_velocityX c) 0,
       velocityY = orDefault (raw_velocityY c) 0,
       prevX = raw_prevX c,
       prevY = raw_prevY c,
       affectedByGravity = definedOr (raw_affectedByGravity c) True,
       isStatic = definedOr (raw_isStatic c) False,
       collisionLayer = orDefault (raw_collisionLayer c) layers_DEFAULT,
       collisionMask = orDefault (raw_collisionMask c) 0xFFFF,
       active = definedOr (raw_active c) True,
       onGround = False,
       onCollision = raw_onCollision c \<rparr>"

text \<open>
  \<open>addCollider ph h c\<close>: the object with reference \<open>h\<close>, whose properties at the call
  are \<open>c\<close>, gets its defaults and is pushed on \<^verbatim>\<open>colliders\<close> and on its partition, at
  once.
\<close>

definition addCollider :: "physics \<Rightarrow> nat \<Rightarrow> rawCollider \<Rightarrow> physics" where
  "addCollider ph h c =
     (let b = withDefaults c;
          ph1 = ph\<lparr>objects := (objects ph)(h := b), colliders := colliders ph @ [h]\<rparr>
      in if isStatic b
         then ph1\<lparr>staticColliders := staticColliders ph1 @ [h]\<rparr>
         else ph1\<lparr>dynamicColliders := dynamicColliders ph1 @ [h]\<rparr>)"

text \<open>
  \<^verbatim>\<open>indexOf\<close> followed by \<^verbatim>\<open>splice(index, 1)\<close> deletes the first occurrence, if there is
  one: \<open>remove1\<close>.
\<close>

definition removeCollider :: "physics \<Rightarrow> nat \<Rightarrow> physics" where
  "removeCollider ph h =
     (let ph1 = ph\<lparr>colliders := remove1 h (colliders ph)\<rparr>
      in if isStatic (objects ph1 h)
         then ph1\<lparr>staticColliders := remove1 h (staticColliders ph1)\<rparr>
         else ph1\<lparr>dynamicColliders := remove1 h (dynamicColliders ph1)\<rparr>)"

subsection \<open>Detection, resolution, grounding\<close>

definition checkCollision :: "body \<Rightarrow> body \<Rightarrow> bool" where
  "checkCollision colliderA colliderB \<longleftrightarrow>
     x colliderA < x colliderB + width colliderB \<and>
     x colliderA + width colliderA > x colliderB \<and>
     y colliderA < y colliderB + height colliderB \<and>
     y colliderA + height colliderA > y colliderB"

definition overlapX :: "body \<Rightarrow> body \<Rightarrow> real" where
  "overlapX colliderA colliderB =
     min (x colliderA + width colliderA - x colliderB)
         (x colliderB + width colliderB - x colliderA)"

definition overlapY :: "body \<Rightarrow> body \<Rightarrow> real" where
  "overlapY colliderA colliderB =
     min (y colliderA + height colliderA - y colliderB)
         (y colliderB + height colliderB - y colliderA)"

text \<open>
  \<^verbatim>\<open>resolveCollision\<close> writes to \<^verbatim>\<open>colliderA\<close> only, and every read of \<^verbatim>\<open>colliderB\<close>
  comes before the write that follows it, so the result is a function of the two
  objects' fields also when both names refer to one object.
\<close>

definition resolveCollision :: "body \<Rightarrow> body \<Rightarrow> body" where
  "resolveCollision colliderA colliderB =
     (if overlapX colliderA colliderB < overlapY colliderA colliderB
      then (if x colliderA < x colliderB
            then colliderA\<lparr>x := x colliderB - width colliderA\<rparr>
            else colliderA\<lparr>x := x colliderB + width colliderB\<rparr>)
           \<lparr>velocityX := - velocityX colliderA * 0.5\<rparr>
      else (if y colliderA < y colliderB
            then colliderA\<lparr>y := y colliderB - height colliderA,
                           onGround := True, velocityY := 0\<rparr>
            else colliderA\<lparr>y := y colliderB + height colliderB, velocityY := 0\<rparr>))"

definition groundCheckOffset :: real where
  "groundCheckOffset = 1"

definition checkGrounded :: "body \<Rightarrow> body \<Rightarrow> bool" where
  "checkGrounded collider ground \<longleftrightarrow>
     \<bar>y collider + height collider - y ground\<bar> \<le> groundCheckOffset \<and>
     x collider < x ground + width ground \<and>
     x collider + width collider > x ground"

subsection \<open>Gravity and friction\<close>

definition applyGravity :: "physics \<Rightarrow> body \<Rightarrow> real \<Rightarrow> body" where
  "applyGravity ph collider deltaTime =
     (if onGround collider \<and> velocityY collider \<ge> 0
      then collider\<lparr>velocityY := 0\<rparr>
      else (let c1 = collider\<lparr>velocityY := velocityY collider + gravity ph * deltaTime\<rparr>
            in if velocityY c1 > terminalVelocity ph
               then c1\<lparr>velocityY := terminalVelocity ph\<rparr>
               else c1))"

definition applyFriction :: "physics \<Rightarrow> body \<Rightarrow> real \<Rightarrow> body" where
  "applyFriction ph collider deltaTime =
     (if \<bar>velocityX collider\<bar> > 0.01
      then collider\<lparr>velocityX := velocityX collider * friction ph\<rparr>
      else collider\<lparr>velocityX := 0\<rparr>)"

subsection \<open>The tick\<close>

text \<open>
  The block shared by the two detection loops of \<^verbatim>\<open>update\<close>: the overlap test, the
  resolution of the querying object \<open>c\<close>, then the callback of \<open>c\<close> and the callback
  of the other object \<open>other\<close>, each if defined.
\<close>

definition notify :: "physics \<Rightarrow> nat \<Rightarrow> nat \<Rightarrow> physics" where
  "notify ph r a =
     (if onCollision (objects ph r)
      then ph\<lparr>calls := calls ph @ [OnCollision r a (objects ph r) (objects ph a)]\<rparr>
      else ph)"

definition collide :: "physics \<Rightarrow> nat \<Rightarrow> nat \<Rightarrow> physics" where
  "collide ph c other =
     (if checkCollision (objects ph c) (objects ph other)
      then (let ph1 = ph\<lparr>objects := (objects ph)
                           (c := resolveCollision (objects ph c) (objects ph other))\<rparr>;
                ph2 = notify ph1 c other
            in notify ph2 other c)
      else ph)"

definition staticStep :: "nat \<Rightarrow> nat \<Rightarrow> physics \<Rightarrow> physics" where
  "staticStep c s ph =
     (if \<not> active (objects ph s) then ph
      else if collisionMask (objects ph c) AND collisionLayer (objects ph s) = 0 then ph
      else collide ph c s)"

definition dynamicStep :: "nat \<Rightarrow> nat \<Rightarrow> physics \<Rightarrow> physics" where
  "dynamicStep c other ph =
     (if c = other \<or> \<not> active (objects ph other) then ph
      else if collisionMask (objects ph c) AND collisionLayer (objects ph other) = 0 then ph
      else collide ph c other)"

text \<open>The last loop of the body of \<^verbatim>\<open>update\<close>, with its \<^verbatim>\<open>break\<close>.\<close>

fun groundScan :: "physics \<Rightarrow> nat \<Rightarrow> nat list \<Rightarrow> bool" where
  "groundScan ph c [] = False"
| "groundScan ph c (s # ss) =
     (if \<not> active (objects ph s) then groundScan ph c ss
      else if collisionMask (objects ph c) AND collisionLayer (objects ph s) = 0
      then groundScan ph c ss
      else if checkGrounded (objects ph c) (objects ph s) then True
      else groundScan ph c ss)"

text \<open>Lines 51 to 67: previous position, gravity, friction, position.\<close>

definition integrate :: "physics \<Rightarrow> real \<Rightarrow> body \<Rightarrow> body" where
  "integrate ph deltaTime collider =
     (let c1 = collider\<lparr>prevX := Some (x collider), prevY := Some (y collider)\<rparr>;
          c2 = (if affectedByGravity c1 then applyGravity ph c1 deltaTime else c1);
          c3 = (if onGround c2 then applyFriction ph c2 deltaTime else c2)
      in c3\<lparr>x := x c3 + velocityX c3 * deltaTime,
             y := y c3 + velocityY c3 * deltaTime\<rparr>)"

text \<open>One iteration of the outer loop of \<^verbatim>\<open>update\<close>.\<close>

definition updateCollider :: "real \<Rightarrow> nat \<Rightarrow> physics \<Rightarrow> physics" where
  "updateCollider deltaTime c ph =
     (if \<not> active (objects ph c) then ph
      else (let ph1 = ph\<lparr>objects := (objects ph)(c := integrate ph deltaTime (objects ph c))\<rparr>;
                ph2 = fold (staticStep c) (staticColliders ph1) ph1;
                ph3 = fold (dynamicStep c) (dynamicColliders ph2) ph2;
                ph4 = ph3\<lparr>objects := (objects ph3)(c := (objects ph3 c)\<lparr>onGround := False\<rparr>)\<rparr>
            in if groundScan ph4 c (staticColliders ph4)
               then ph4\<lparr>objects := (objects ph4)(c := (objects ph4 c)\<lparr>onGround := True\<rparr>)\<rparr>
               else ph4))"

definition update :: "physics \<Rightarrow> real \<Rightarrow> physics" where
  "update ph deltaTime = fold (updateCollider deltaTime) (dynamicColliders ph) ph"

subsection \<open>Ray casting\<close>

text \<open>
  \<^verbatim>\<open>tMin\<close> starts at \<^verbatim>\<open>-Infinity\<close> and \<^verbatim>\<open>tMax\<close> at \<^verbatim>\<open>Infinity\<close>; they stay there when
  the direction has no component on an axis.
\<close>

datatype number = NegInfinity | Num real | PosInfinity

fun numLe :: "number \<Rightarrow> number \<Rightarrow> bool" where
  "numLe NegInfinity b = True"
| "numLe (Num a) NegInfinity = False"
| "numLe (Num a) (Num b) = (a \<le> b)"
| "numLe (Num a) PosInfinity = True"
| "numLe PosInfinity PosInfinity = True"
| "numLe PosInfinity b = False"

definition numLess :: "number \<Rightarrow> number \<Rightarrow> bool" where
  "numLess a b \<longleftrightarrow> numLe a b \<and> a \<noteq> b"

definition numMax :: "number \<Rightarrow> number \<Rightarrow> number" where
  "numMax a b = (if numLe a b then b else a)"

definition numMin :: "number \<Rightarrow> number \<Rightarrow> number" where
  "numMin a b = (if numLe a b then a else b)"

record hit =
  hit_collider :: nat
  hit_distance :: real
  hit_pointX :: real
  hit_pointY :: real
  hit_normalX :: real
  hit_normalY :: real

text \<open>
  The state of \<^verbatim>\<open>raycastCollider\<close> after the block of the X axis and after the block
  of the Y axis: \<^verbatim>\<open>(tMin, tMax, hitNormalX, hitNormalY)\<close>.
\<close>

definition slabX :: "real \<Rightarrow> real \<Rightarrow> body \<Rightarrow> number \<times> number \<times> real \<times> real" where
  "slabX startX dirX collider =
     (let minX = x collider; maxX = x collider + width collider
      in if dirX \<noteq> 0
         then (let t1 = (minX - startX) / dirX;
                   t2 = (maxX - startX) / dirX;
                   tMin = numMax NegInfinity (Num (min t1 t2));
                   tMax = numMin PosInfinity (Num (max t1 t2));
                   n1 = (if tMin = Num t1 then - 1 else 0);
                   n2 = (if tMin = Num t2 then 1 else n1)
               in (tMin, tMax, n2, 0))
         else (NegInfinity, PosInfinity, 0, 0))"

definition slabY ::
  "real \<Rightarrow> real \<Rightarrow> body \<Rightarrow> number \<times> number \<times> real \<times> real \<Rightarrow> number \<times> number \<times> real \<times> real"
where
  "slabY startY dirY collider st =
     (case st of (tMinOld, tMax0, hitNormalX, hitNormalY) \<Rightarrow>
        (let minY = y collider; maxY = y collider + height collider
         in if dirY \<noteq> 0
            then (let t1 = (minY - startY) / dirY;
                      t2 = (maxY - startY) / dirY;
                      tMin = numMax tMinOld (Num (min t1 t2));
                      tMax = numMin tMax0 (Num (max t1 t2))
                  in if tMin \<noteq> tMinOld
                     then (let n1 = (if tMin = Num t1 then - 1 else hitNormalY);
                               n2 = (if tMin = Num t2 then 1 else n1)
                           in (tMin, tMax, 0, n2))
                     else (tMin, tMax, hitNormalX, hitNormalY))
            else st))"

definition raycastCollider ::
  "real \<Rightarrow> real \<Rightarrow> real \<Rightarrow> real \<Rightarrow> real \<Rightarrow> nat \<Rightarrow> body \<Rightarrow> hit option"
where
  "raycastCollider startX startY dirX dirY maxDistance h collider =
     (case slabY startY dirY collider (slabX startX dirX collider) of
        (tMin, tMax, hitNormalX, hitNormalY) \<Rightarrow>
          (if numLe tMin tMax \<and> numLe (Num 0) tMin \<and> numLe tMin (Num maxDistance)
           then (case tMin of
                   Num t \<Rightarrow> Some \<lparr> hit_collider = h,
                                    hit_distance = t,
                                    hit_pointX = startX + dirX * t,
                                    hit_pointY = startY + dirY * t,
                                    hit_normalX = hitNormalX,
                                    hit_normalY = hitNormalY \<rparr>
                 | _ \<Rightarrow> None)
           else None))"

text \<open>
  One iteration of the loop of \<^verbatim>\<open>raycast\<close>; the state is
  \<^verbatim>\<open>(closestHit, closestDistance)\<close>.
\<close>

definition raycastStep ::
  "physics \<Rightarrow> real \<Rightarrow> real \<Rightarrow> real \<Rightarrow> real \<Rightarrow> real \<Rightarrow> 32 word \<Rightarrow> nat \<Rightarrow>
   hit option \<times> number \<Rightarrow> hit option \<times> number"
where
  "raycastStep ph startX startY normDirX normDirY distance queryMask h st =
     (let collider = objects ph h
      in if \<not> active collider \<or> collisionLayer collider AND queryMask = 0 then st
         else (case raycastCollider startX startY normDirX normDirY distance h collider of
                 None \<Rightarrow> st
               | Some ht \<Rightarrow>
                   if numLess (Num (hit_distance ht)) (snd st)
                   then (Some ht, Num (hit_distance ht))
                   else st))"

text \<open>
  A ray whose end is its start has length zero, and \<^verbatim>\<open>dirX / distance\<close> is \<^verbatim>\<open>NaN\<close>:
  both axis blocks run, every \<^verbatim>\<open>t\<close> is \<^verbatim>\<open>NaN\<close>, the final comparison is false for every
  collider, and the result is \<^verbatim>\<open>null\<close>.
\<close>

definition raycast :: "physics \<Rightarrow> real \<Rightarrow> real \<Rightarrow> real \<Rightarrow> real \<Rightarrow> 32 word \<Rightarrow> hit option" where
  "raycast ph startX startY endX endY queryMask =
     (let dirX = endX - startX;
          dirY = endY - startY;
          distance = sqrt (dirX * dirX + dirY * dirY)
      in if distance = 0 then None
         else (let normDirX = dirX / distance;
                   normDirY = dirY / distance
               in fst (fold (raycastStep ph startX startY normDirX normDirY distance queryMask)
                            (colliders ph) (None, PosInfinity))))"

subsection \<open>Test worlds\<close>

text \<open>
  Objects as gameplay code hands them to \<^verbatim>\<open>addCollider\<close>: position and size given, the
  static flag given, a collision callback defined, everything else left to the
  defaults.
\<close>

definition rawBox :: "real \<Rightarrow> real \<Rightarrow> real \<Rightarrow> real \<Rightarrow> bool \<Rightarrow> rawCollider" where
  "rawBox px py w h st =
     \<lparr> raw_x = px, raw_y = py, raw_width = w, raw_height = h,
       raw_velocityX = None, raw_velocityY = None, raw_prevX = None, raw_prevY = None,
       raw_affectedByGravity = None, raw_isStatic = Some st,
       raw_collisionLayer = None, raw_collisionMask = None, raw_active = None,
       raw_onCollision = True \<rparr>"

definition box :: "real \<Rightarrow> real \<Rightarrow> real \<Rightarrow> real \<Rightarrow> bool \<Rightarrow> body" where
  "box px py w h st = withDefaults (rawBox px py w h st)"

definition defaultConfig :: config where
  "defaultConfig =
     \<lparr> config_gravity = None, config_friction = None, config_terminalVelocity = None \<rparr>"

text \<open>A fresh engine with the default constants and nothing registered.\<close>

definition newPhysics :: physics where
  "newPhysics = constructor defaultConfig (\<lambda>h. box 0 0 0 0 False)"

text \<open>
  The scenario of the specification: a static floor at \<open>(0, 100)\<close> of size \<open>200 \<times> 32\<close>
  (reference 0) and a dynamic body at \<open>(0, 0)\<close> of size \<open>32 \<times> 32\<close> (reference 1).
\<close>

definition floorWorld :: physics where
  "floorWorld =
     addCollider (addCollider newPhysics 0 (rawBox 0 100 200 32 True)) 1 (rawBox 0 0 32 32 False)"

text \<open>The same floor, with the dynamic body registered inactive.\<close>

definition sleeperWorld :: physics where
  "sleeperWorld =
     addCollider (addCollider newPhysics 0 (rawBox 0 100 200 32 True)) 1
       ((rawBox 0 0 32 32 False)\<lparr>raw_active := Some False\<rparr>)"

text \<open>
  A dynamic body standing exactly on a floor: the floor at \<open>(0, 32)\<close> (reference 0),
  the body at \<open>(0, 0)\<close> of size \<open>32 \<times> 32\<close> (reference 1).
\<close>

definition restWorld :: physics where
  "restWorld =
     addCollider (addCollider newPhysics 0 (rawBox 0 32 200 32 True)) 1 (rawBox 0 0 32 32 False)"

text \<open>
  That world one tick of an eighth of a second later: the body has fallen into the floor,
  has been put back on it, and is flagged as grounded.
\<close>

definition landedWorld :: physics where
  "landedWorld =
     restWorld\<lparr>objects := (objects restWorld)
       (1 := (box 0 0 32 32 False)\<lparr>prevX := Some 0, prevY := Some 0, onGround := True\<rparr>)\<rparr>"

text \<open>
  The same body standing on the very edge of a floor that begins at \<open>x = 31.99609375\<close>:
  the horizontal extents overlap by \<open>0.00390625\<close>. The numbers of the test worlds
  are binary fractions, so the arithmetic on them is exact in floating point too.
\<close>

definition edgeWorld :: physics where
  "edgeWorld =
     addCollider (addCollider newPhysics 0 (rawBox 31.99609375 32 200 32 True)) 1
       (rawBox 0 0 32 32 False)"

text \<open>
  Two dynamic bodies and no static one: a falling body at \<open>(0, 0)\<close> (reference 0) whose
  lower edge reaches two units into a body at \<open>(0, 30)\<close> that gravity does not affect
  (reference 1).
\<close>

definition perchWorld :: physics where
  "perchWorld =
     addCollider (addCollider newPhysics 0 (rawBox 0 0 32 32 False)) 1
       ((rawBox 0 30 32 32 False)\<lparr>raw_affectedByGravity := Some False\<rparr>)"

text \<open>
  Two dynamic bodies side by side that gravity does not affect, overlapping by two
  units, the right one (reference 1) moving left at \<open>100\<close> units per second. Both have
  the default layer and mask, so each can see the other.
\<close>

definition bumpWorld :: physics where
  "bumpWorld =
     addCollider
       (addCollider newPhysics 0
          ((rawBox 0 0 32 32 False)\<lparr>raw_affectedByGravity := Some False\<rparr>)) 1
       ((rawBox 30 0 32 32 False)\<lparr>raw_affectedByGravity := Some False,
                                    raw_velocityX := Some (- 100)\<rparr>)"

text \<open>
  The same two bodies with masks that match in one direction only: reference 0 is on
  layer \<^verbatim>\<open>PLAYER\<close> and sees every layer, reference 1 is on layer \<^verbatim>\<open>ENEMY\<close> and sees
  layer \<^verbatim>\<open>PLATFORM\<close> only.
\<close>

definition oneWayWorld :: physics where
  "oneWayWorld =
     addCollider
       (addCollider newPhysics 0
          ((rawBox 0 0 32 32 False)\<lparr>raw_affectedByGravity := Some False,
                                     raw_collisionLayer := Some 0x0002\<rparr>)) 1
       ((rawBox 30 0 32 32 False)\<lparr>raw_affectedByGravity := Some False,
                                    raw_velocityX := Some (- 100),
                                    raw_collisionLayer := Some 0x0004,
                                    raw_collisionMask := Some 0x0008\<rparr>)"



text \<open>Ten bodies to register, with the references \<open>0\<close> to \<open>9\<close>.\<close>

definition tenBodies :: "(nat \<times> rawCollider) list" where
  "tenBodies =
     [(0, rawBox 0 0 32 32 False), (1, rawBox 40 0 32 32 True),
      (2, rawBox 80 0 32 32 False), (3, rawBox 120 0 32 32 True),
      (4, rawBox 160 0 32 32 False), (5, rawBox 200 0 32 32 True),
      (6, rawBox 240 0 32 32 False), (7, rawBox 280 0 32 32 True),
      (8, rawBox 320 0 32 32 False), (9, rawBox 360 0 32 32 True)]"

subsection \<open>Notions used in the proofs\<close>

text \<open>The fields of an object that no method of the engine writes after registration.\<close>

definition shape ::
  "body \<Rightarrow> real \<times> real \<times> bool \<times> bool \<times> 32 word \<times> 32 word \<times> bool \<times> bool" where
  "shape b = (width b, height b, affectedByGravity b, isStatic b,
              collisionLayer b, collisionMask b, active b, onCollision b)"

text \<open>
  \<open>frame S ph ph'\<close>: from \<open>ph\<close> to \<open>ph'\<close> the constants and the three arrays are the
  same, no object outside \<open>S\<close> has changed, and every object has kept its shape.
\<close>

definition frame :: "nat set \<Rightarrow> physics \<Rightarrow> physics \<Rightarrow> bool" where
  "frame S ph ph' \<longleftrightarrow>
     gravity ph' = gravity ph \<and> friction ph' = friction ph \<and>
     terminalVelocity ph' = terminalVelocity ph \<and>
     colliders ph' = colliders ph \<and> staticColliders ph' = staticColliders ph \<and>
     dynamicColliders ph' = dynamicColliders ph \<and>
     (\<forall>h. h \<notin> S \<longrightarrow> objects ph' h = objects ph h) \<and>
     (\<forall>h. shape (objects ph' h) = shape (objects ph h))"

text \<open>
  \<open>gate A B\<close>: the two tests that come before the overlap test in the loops of
  \<^verbatim>\<open>update\<close>, for the querying object \<open>A\<close> and the other object \<open>B\<close>.
\<close>

definition gate :: "body \<Rightarrow> body \<Rightarrow> bool" where
  "gate A B \<longleftrightarrow> active B \<and> collisionMask A AND collisionLayer B \<noteq> 0"

text \<open>\<open>ticks n dt ph\<close>: \<^verbatim>\<open>update(dt)\<close> called \<open>n\<close> times in a row.\<close>

primrec ticks :: "nat \<Rightarrow> real \<Rightarrow> physics \<Rightarrow> physics" where
  "ticks 0 dt ph = ph"
| "ticks (Suc n) dt ph = ticks n dt (update ph dt)"

text \<open>
  \<open>restingOn ph a s\<close>: the dynamic object \<open>a\<close> is active and flagged as grounded, has
  no velocity, and stands exactly on the static object \<open>s\<close>, which it can see: its
  bottom edge is the top edge of \<open>s\<close> and the horizontal extents overlap. Nothing else
  touches it: it overlaps no static object it can see, and it can see no other
  dynamic object. No object is in both partitions.
\<close>

definition restingOn :: "physics \<Rightarrow> nat \<Rightarrow> nat \<Rightarrow> bool" where
  "restingOn ph a s \<longleftrightarrow>
     a \<in> set (dynamicColliders ph) \<and> s \<in> set (staticColliders ph) \<and>
     set (staticColliders ph) \<inter> set (dynamicColliders ph) = {} \<and>
     active (objects ph a) \<and> onGround (objects ph a) \<and>
     velocityX (objects ph a) = 0 \<and> velocityY (objects ph a) = 0 \<and>
     gate (objects ph a) (objects ph s) \<and>
     y (objects ph a) + height (objects ph a) = y (objects ph s) \<and>
     x (objects ph a) < x (objects ph s) + width (objects ph s) \<and>
     x (objects ph a) + width (objects ph a) > x (objects ph s) \<and>
     (\<forall>t \<in> set (staticColliders ph).
        \<not> (gate (objects ph a) (objects ph t) \<and>
           checkCollision (objects ph a) (objects ph t))) \<and>
     (\<forall>d \<in> set (dynamicColliders ph). d = a \<or> \<not> gate (objects ph a) (objects ph d))"

text \<open>The number of calls in a trace in which \<open>r\<close> receives \<open>a\<close>.\<close>

definition countCalls :: "nat \<Rightarrow> nat \<Rightarrow> event list \<Rightarrow> nat" where
  "countCalls r a evs = length (filter (\<lambda>e. receiver e = r \<and> argument e = a) evs)"

text \<open>
  The invariant of the registry: no reference is twice in an array, and an object of
  \<^verbatim>\<open>colliders\<close> is in the partition that its \<^verbatim>\<open>isStatic\<close> flag names.
\<close>

definition wellFormed :: "physics \<Rightarrow> bool" where
  "wellFormed ph \<longleftrightarrow>
     distinct (colliders ph) \<and> distinct (staticColliders ph) \<and>
     distinct (dynamicColliders ph) \<and>
     set (staticColliders ph) = {h \<in> set (colliders ph). isStatic (objects ph h)} \<and>
     set (dynamicColliders ph) = {h \<in> set (colliders ph). \<not> isStatic (objects ph h)}"

text \<open>A sequence of calls of \<^verbatim>\<open>addCollider\<close>, and one of \<^verbatim>\<open>removeCollider\<close>.\<close>

fun addColliders :: "physics \<Rightarrow> (nat \<times> rawCollider) list \<Rightarrow> physics" where
  "addColliders ph [] = ph"
| "addColliders ph ((h, c) # hcs) = addColliders (addCollider ph h c) hcs"

fun removeColliders :: "physics \<Rightarrow> nat list \<Rightarrow> physics" where
  "removeColliders ph [] = ph"
| "removeColliders ph (h # hs) = removeColliders (removeCollider ph h) hs"

subsection \<open>One pass of the tick as a list of detections\<close>

text \<open>
  The reading of the detection loops that the specification gives, to be compared with
  \<open>updateCollider\<close>. The querying body \<open>c\<close>, with the fields \<open>A\<close> it has so far, goes
  through the references \<open>bs\<close> in order. A reference \<open>b\<close> other than \<open>c\<close> whose object
  is active, is on a layer in the mask of \<open>c\<close> and overlaps \<open>A\<close> is a detection: \<open>A\<close>
  is corrected against it, and the loop goes on with the corrected fields. No other
  object changes. \<open>corrected\<close> is the querying body after the loop, \<open>detections\<close> the
  list of the detections in the order they were made, each with the querying body as
  it is right after its correction.
\<close>

fun corrected :: "(nat \<Rightarrow> body) \<Rightarrow> nat \<Rightarrow> body \<Rightarrow> nat list \<Rightarrow> body" where
  "corrected objs c A [] = A"
| "corrected objs c A (b # bs) =
     (if b \<noteq> c \<and> gate A (objs b) \<and> checkCollision A (objs b)
      then corrected objs c (resolveCollision A (objs b)) bs
      else corrected objs c A bs)"

fun detections ::
  "(nat \<Rightarrow> body) \<Rightarrow> nat \<Rightarrow> body \<Rightarrow> nat list \<Rightarrow> (nat \<times> nat \<times> body \<times> body) list" where
  "detections objs c A [] = []"
| "detections objs c A (b # bs) =
     (if b \<noteq> c \<and> gate A (objs b) \<and> checkCollision A (objs b)
      then (c, b, resolveCollision A (objs b), objs b) #
           detections objs c (resolveCollision A (objs b)) bs
      else detections objs c A bs)"

text \<open>
  The calls that one detection gives: the callback of the querying body with the other
  body, then the callback of the other body with the querying body, each if it is
  defined, both with the corrected fields in view.
\<close>

fun callbacksOf :: "nat \<times> nat \<times> body \<times> body \<Rightarrow> event list" where
  "callbacksOf (c, b, A, B) =
     (if onCollision A then [OnCollision c b A B] else []) @
     (if onCollision B then [OnCollision b c B A] else [])"

text \<open>
  The pass of the dynamic body \<open>c\<close>: nothing if it is inactive; otherwise it is
  integrated, corrected against the static and then the dynamic bodies, and flagged as
  grounded exactly when a static body it can see supports it; the calls of the pass are
  the callbacks of its detections.
\<close>

definition specPass :: "real \<Rightarrow> nat \<Rightarrow> physics \<Rightarrow> physics" where
  "specPass dt c ph =
     (if \<not> active (objects ph c) then ph
      else (let A1 = integrate ph dt (objects ph c);
                bs = staticColliders ph @ dynamicColliders ph;
                A = corrected (objects ph) c A1 bs;
                g = (\<exists>s \<in> set (staticColliders ph).
                       gate A (objects ph s) \<and> checkGrounded A (objects ph s))
            in ph\<lparr>objects := (objects ph)(c := A\<lparr>onGround := g\<rparr>),
                  calls := calls ph @
                    concat (map callbacksOf (detections (objects ph) c A1 bs))\<rparr>))"

text \<open>\<open>detected dt c b ph\<close>: the pass of \<open>c\<close> that starts in \<open>ph\<close> detects \<open>b\<close>.\<close>

definition detected :: "real \<Rightarrow> nat \<Rightarrow> nat \<Rightarrow> physics \<Rightarrow> bool" where
  "detected dt c b ph \<longleftrightarrow>
     active (objects ph c) \<and>
     b \<in> set (map (\<lambda>d. fst (snd d))
                (detections (objects ph) c (integrate ph dt (objects ph c))
                   (staticColliders ph @ dynamicColliders ph)))"

subsection \<open>Double precision\<close>

text \<open>
  A JavaScript number is a binary64 double, and \<^verbatim>\<open>+\<close>, \<^verbatim>\<open>-\<close> and \<^verbatim>\<open>*\<close> give the double
  nearest to the exact result, the one with the even significand on a tie. \<open>fl r\<close> is
  that double for a real \<open>r\<close>: \<open>binade n r\<close> finds the exponent \<open>e\<close> with
  \<open>2\<^sup>e \<le> r < 2\<^sup>e\<^sup>+\<^sup>1\<close> by halving or doubling \<open>r\<close> at most \<open>n\<close> times, the spacing
  \<open>ulp r\<close> of the doubles around \<open>r\<close> is \<open>2\<^sup>e\<^sup>-\<^sup>5\<^sup>2\<close>, and \<open>2\<^sup>-\<^sup>1\<^sup>0\<^sup>7\<^sup>4\<close> below the normal
  range, and \<open>r\<close> is rounded to a multiple of it. Results of magnitude \<open>2\<^sup>1\<^sup>0\<^sup>2\<^sup>4\<close> and
  more, which JavaScript turns into \<^verbatim>\<open>Infinity\<close>, are outside this model.
\<close>

primrec binade :: "nat \<Rightarrow> real \<Rightarrow> int" where
  "binade 0 r = 0"
| "binade (Suc n) r =
     (if 2 \<le> r then binade n (r / 2) + 1
      else if r < 1 then binade n (r * 2) - 1
      else 0)"

definition roundEven :: "real \<Rightarrow> int" where
  "roundEven r =
     (let n = \<lfloor>r\<rfloor>; d = r - of_int n
      in if d < 1 / 2 then n
         else if 1 / 2 < d then n + 1
         else if even n then n else n + 1)"

definition ulp :: "real \<Rightarrow> real" where
  "ulp r = 2 powi (max (binade 1100 \<bar>r\<bar>) (- 1022) - 52)"

definition fl :: "real \<Rightarrow> real" where
  "fl r = of_int (roundEven (r / ulp r)) * ulp r"

text \<open>
  \<^verbatim>\<open>checkCollision\<close> and \<^verbatim>\<open>resolveCollision\<close> once more, with the result of every
  arithmetic operation of the source rounded. \<^verbatim>\<open>Math.min\<close>, the comparisons and the
  unary minus are exact.
\<close>

definition checkCollision_f64 :: "body \<Rightarrow> body \<Rightarrow> bool" where
  "checkCollision_f64 colliderA colliderB \<longleftrightarrow>
     x colliderA < fl (x colliderB + width colliderB) \<and>
     fl (x colliderA + width colliderA) > x colliderB \<and>
     y colliderA < fl (y colliderB + height colliderB) \<and>
     fl (y colliderA + height colliderA) > y colliderB"

definition overlapX_f64 :: "body \<Rightarrow> body \<Rightarrow> real" where
  "overlapX_f64 colliderA colliderB =
     min (fl (fl (x colliderA + width colliderA) - x colliderB))
         (fl (fl (x colliderB + width colliderB) - x colliderA))"

definition overlapY_f64 :: "body \<Rightarrow> body \<Rightarrow> real" where
  "overlapY_f64 colliderA colliderB =
     min (fl (fl (y colliderA + height colliderA) - y colliderB))
         (fl (fl (y colliderB + height colliderB) - y colliderA))"

definition resolveCollision_f64 :: "body \<Rightarrow> body \<Rightarrow> body" where
  "resolveCollision_f64 colliderA colliderB =
     (if overlapX_f64 colliderA colliderB < overlapY_f64 colliderA colliderB
      then (if x colliderA < x colliderB
            then colliderA\<lparr>x := fl (x colliderB - width colliderA)\<rparr>
            else colliderA\<lparr>x := fl (x colliderB + width colliderB)\<rparr>)
           \<lparr>velocityX := fl (- velocityX colliderA * 0.5)\<rparr>
      else (if y colliderA < y colliderB
            then colliderA\<lparr>y := fl (y colliderB - height colliderA),
                           onGround := True, velocityY := 0\<rparr>
            else colliderA\<lparr>y := fl (y colliderB + height colliderB), velocityY := 0\<rparr>))"

text \<open>
  A body whose \<^verbatim>\<open>x\<close> and \<^verbatim>\<open>width\<close> are the doubles that the literals \<^verbatim>\<open>-0.95\<close> and
  \<^verbatim>\<open>1.1\<close> denote, and a static body whose \<^verbatim>\<open>x\<close> is the double that \<^verbatim>\<open>0.1\<close> denotes.
\<close>

definition sliverA :: body where
  "sliverA = box (fl (- 0.95)) 0 (fl 1.1) 32 False"

definition sliverB :: body where
  "sliverB = box (fl 0.1) 0 32 32 True"

section \<open>Properties\<close>

lemmas box_defs =
  box_def rawBox_def withDefaults_def orDefault_def definedOr_def layers_DEFAULT_def

lemmas new_defs = newPhysics_def constructor_def defaultConfig_def

text \<open>The definitions that evaluate a tick in a concrete world.\<close>

lemmas tick_defs =
  addCollider_def box_defs new_defs
  update_def updateCollider_def integrate_def applyGravity_def applyFriction_def
  staticStep_def dynamicStep_def collide_def notify_def resolveCollision_def
  checkCollision_def checkGrounded_def groundCheckOffset_def overlapX_def overlapY_def
  Let_def

subsection \<open>Resolution along the axis of least penetration\<close>

text \<open>Rules to compute \<open>fl\<close> on a number.\<close>

lemma binade_numeral:
  "binade (numeral k) r =
     (if 2 \<le> r then binade (pred_numeral k) (r / 2) + 1
      else if r < 1 then binade (pred_numeral k) (r * 2) - 1
      else 0)"
  by (simp add: numeral_eq_Suc)

lemma powi2: "(2 :: real) powi e = (if 0 \<le> e then 2 ^ nat e else 1 / 2 ^ nat (- e))"
  by (simp add: power_int_def field_simps)

text \<open>\<open>fl r\<close> is within half a spacing of \<open>r\<close>.\<close>

lemma roundEven_error: "\<bar>of_int (roundEven r) - r\<bar> \<le> 1 / 2"
proof -
  have "of_int \<lfloor>r\<rfloor> \<le> r" "r < of_int \<lfloor>r\<rfloor> + 1" by linarith+
  then show ?thesis unfolding roundEven_def Let_def by auto
qed

lemma ulp_pos: "0 < ulp r"
  by (simp add: ulp_def)

lemma fl_error: "\<bar>fl r - r\<bar> \<le> ulp r / 2"
proof -
  have u: "0 < ulp r" by (rule ulp_pos)
  have "fl r - r = (of_int (roundEven (r / ulp r)) - r / ulp r) * ulp r"
    using u by (simp add: fl_def field_simps)
  then have "\<bar>fl r - r\<bar> = \<bar>of_int (roundEven (r / ulp r)) - r / ulp r\<bar> * ulp r"
    using u by (simp add: abs_mult)
  also have "\<dots> \<le> (1 / 2) * ulp r"
    using roundEven_error [of "r / ulp r"] u by (intro mult_right_mono) simp_all
  finally show ?thesis by simp
qed

text \<open>
  Claim C4 as stated fails in double precision, where the engine computes. For
  \<open>sliverA\<close> and \<open>sliverB\<close> the X axis is chosen and \<open>A\<close> comes from the left, so
  \<^verbatim>\<open>A.x\<close> becomes the double nearest to \<open>0.1 - 1.1\<close>, which is \<open>-1\<close>. Then
  \<^verbatim>\<open>A.x + A.width\<close> is \<open>0.10000000000000009\<close>, above \<^verbatim>\<open>B.x\<close>: \<open>A\<close> is not flush against
  \<open>B\<close>, the two still overlap for \<^verbatim>\<open>checkCollision\<close>, and a second resolution chooses
  the X axis again and leaves \<^verbatim>\<open>A.x\<close> as it is.
\<close>

theorem resolveCollision_not_flush_counterexample:
  "checkCollision_f64 sliverA sliverB \<and>
   overlapX_f64 sliverA sliverB < overlapY_f64 sliverA sliverB \<and>
   x sliverA < x sliverB \<and>
   x (resolveCollision_f64 sliverA sliverB) = - 1 \<and>
   x sliverB < fl (x (resolveCollision_f64 sliverA sliverB) +
                   width (resolveCollision_f64 sliverA sliverB)) \<and>
   checkCollision_f64 (resolveCollision_f64 sliverA sliverB) sliverB \<and>
   overlapX_f64 (resolveCollision_f64 sliverA sliverB) sliverB <
     overlapY_f64 (resolveCollision_f64 sliverA sliverB) sliverB \<and>
   x (resolveCollision_f64 (resolveCollision_f64 sliverA sliverB) sliverB) =
     x (resolveCollision_f64 sliverA sliverB)"
proof -
  have a: "x sliverA = - (8556839292003942 / 9007199254740992)" "y sliverA = 0"
    "width sliverA = 4953959590107546 / 4503599627370496" "height sliverA = 32"
    by (simp_all add: sliverA_def box_defs fl_def ulp_def roundEven_def binade_numeral powi2 Let_def)
  have b: "x sliverB = 3602879701896397 / 36028797018963968" "y sliverB = 0"
    "width sliverB = 32" "height sliverB = 32"
    by (simp_all add: sliverB_def box_defs fl_def ulp_def roundEven_def binade_numeral powi2 Let_def)
  have ox: "overlapX_f64 sliverA sliverB < 1"
    by (simp add: overlapX_f64_def a b fl_def ulp_def roundEven_def binade_numeral powi2 Let_def)
  have oy: "overlapY_f64 sliverA sliverB = 32"
    by (simp add: overlapY_f64_def a b fl_def ulp_def roundEven_def binade_numeral powi2 Let_def)
  have c: "checkCollision_f64 sliverA sliverB"
    by (simp add: checkCollision_f64_def a b fl_def ulp_def roundEven_def binade_numeral powi2 Let_def)
  have lt: "x sliverA < x sliverB" by (simp add: a b)
  define R where "R = resolveCollision_f64 sliverA sliverB"
  have "R = sliverA\<lparr>x := fl (x sliverB - width sliverA),
                       velocityX := fl (- velocityX sliverA * 0.5)\<rparr>"
    using ox oy lt by (simp add: R_def resolveCollision_f64_def)
  then have "x R = fl (x sliverB - width sliverA)" "y R = y sliverA"
    "width R = width sliverA" "height R = height sliverA"
    by simp_all
  then have r: "x R = - 1" "y R = 0" "width R = 4953959590107546 / 4503599627370496"
    "height R = 32"
    unfolding a b by (simp_all add: fl_def ulp_def roundEven_def binade_numeral powi2 Let_def)
  have s: "fl (x R + width R) = 450359962737050 / 4503599627370496"
    by (simp add: r fl_def ulp_def roundEven_def binade_numeral powi2 Let_def)
  have ox2: "overlapX_f64 R sliverB < 1"
    by (simp add: overlapX_f64_def r b fl_def ulp_def roundEven_def binade_numeral powi2 Let_def)
  have oy2: "overlapY_f64 R sliverB = 32"
    by (simp add: overlapY_f64_def r b fl_def ulp_def roundEven_def binade_numeral powi2 Let_def)
  have c2: "checkCollision_f64 R sliverB"
    by (simp add: checkCollision_f64_def r b fl_def ulp_def roundEven_def binade_numeral powi2 Let_def)
  have lt2: "x R < x sliverB" by (simp add: r b)
  have "resolveCollision_f64 R sliverB =
          R\<lparr>x := fl (x sliverB - width R), velocityX := fl (- velocityX R * 0.5)\<rparr>"
    using ox2 oy2 lt2 by (simp add: resolveCollision_f64_def)
  then have "x (resolveCollision_f64 R sliverB) = fl (x sliverB - width R)"
    by simp
  then have r2: "x (resolveCollision_f64 R sliverB) = - 1"
    unfolding r b by (simp add: fl_def ulp_def roundEven_def binade_numeral powi2 Let_def)
  have "x sliverB < fl (x R + width R)" unfolding s by (simp add: b)
  with c ox oy lt r c2 ox2 oy2 r2 show ?thesis unfolding R_def by simp
qed

text \<open>
  Claim C4, amended. \<^verbatim>\<open>resolveCollision\<close> takes the X branch exactly when the computed
  \<open>overlapX\<close> is less than the computed \<open>overlapY\<close>, and the Y branch otherwise, so
  also on a tie. The X branch leaves \<open>y\<close> alone, halves and reverses \<open>velocityX\<close>, and
  sets \<open>x\<close> to the double nearest to \<open>B.x - A.width\<close> when \<open>A.x < B.x\<close>, else to the
  double nearest to \<open>B.x + B.width\<close>. From the right \<open>A\<close> is then outside \<open>B\<close> for
  \<^verbatim>\<open>checkCollision\<close>. From the left \<open>A.x\<close> is within half a spacing of the doubles of
  \<open>B.x - A.width\<close>, and \<open>A\<close> is flush against \<open>B\<close>, its computed right edge
  being \<open>B.x\<close>, and outside \<open>B\<close> when \<open>B.x - A.width\<close> is a double, as it is for
  coordinates and sizes that are small integers; otherwise rounding can leave it
  overlapping. The Y branch leaves \<open>x\<close> alone and does the same on the Y axis.
\<close>

theorem resolveCollision_minimum_translation:
  "(overlapX_f64 A B < overlapY_f64 A B \<longrightarrow>
      y (resolveCollision_f64 A B) = y A \<and>
      velocityX (resolveCollision_f64 A B) = fl (- velocityX A * 0.5) \<and>
      velocityY (resolveCollision_f64 A B) = velocityY A \<and>
      (x A < x B \<longrightarrow>
         x (resolveCollision_f64 A B) = fl (x B - width A) \<and>
         \<bar>x (resolveCollision_f64 A B) - (x B - width A)\<bar> \<le> ulp (x B - width A) / 2 \<and>
         (fl (x B) = x B \<and> fl (x B - width A) = x B - width A \<longrightarrow>
            fl (x (resolveCollision_f64 A B) + width (resolveCollision_f64 A B)) = x B \<and>
            \<not> checkCollision_f64 (resolveCollision_f64 A B) B)) \<and>
      (\<not> x A < x B \<longrightarrow>
         x (resolveCollision_f64 A B) = fl (x B + width B) \<and>
         \<not> checkCollision_f64 (resolveCollision_f64 A B) B)) \<and>
   (\<not> overlapX_f64 A B < overlapY_f64 A B \<longrightarrow>
      x (resolveCollision_f64 A B) = x A \<and>
      velocityX (resolveCollision_f64 A B) = velocityX A \<and>
      velocityY (resolveCollision_f64 A B) = 0 \<and>
      (y A < y B \<longrightarrow>
         y (resolveCollision_f64 A B) = fl (y B - height A) \<and>
         \<bar>y (resolveCollision_f64 A B) - (y B - height A)\<bar> \<le> ulp (y B - height A) / 2 \<and>
         (fl (y B) = y B \<and> fl (y B - height A) = y B - height A \<longrightarrow>
            fl (y (resolveCollision_f64 A B) + height (resolveCollision_f64 A B)) = y B \<and>
            \<not> checkCollision_f64 (resolveCollision_f64 A B) B)) \<and>
      (\<not> y A < y B \<longrightarrow>
         y (resolveCollision_f64 A B) = fl (y B + height B) \<and>
         \<not> checkCollision_f64 (resolveCollision_f64 A B) B))"
  using fl_error [of "x B - width A"] fl_error [of "y B - height A"]
  by (simp add: resolveCollision_f64_def checkCollision_f64_def)

text \<open>
  The example of the specification: two \<open>32 \<times> 32\<close> bodies with \<open>overlapX = 4\<close> and
  \<open>overlapY = 20\<close>; the dynamic one ends at \<open>x = -4\<close>, flush on the left, with
  \<open>y\<close> as before. With \<open>overlapX = overlapY = 4\<close> it ends at \<open>y = -4\<close> instead, with
  \<open>x\<close> as before.
\<close>

theorem resolveCollision_minimum_translation_witness:
  "checkCollision_f64 (box 0 0 32 32 False) (box 28 12 32 32 True) \<and>
   overlapX_f64 (box 0 0 32 32 False) (box 28 12 32 32 True) = 4 \<and>
   overlapY_f64 (box 0 0 32 32 False) (box 28 12 32 32 True) = 20 \<and>
   x (box 0 0 32 32 False) < x (box 28 12 32 32 True) \<and>
   fl (x (box 28 12 32 32 True)) = x (box 28 12 32 32 True) \<and>
   fl (x (box 28 12 32 32 True) - width (box 0 0 32 32 False)) =
     x (box 28 12 32 32 True) - width (box 0 0 32 32 False) \<and>
   x (resolveCollision_f64 (box 0 0 32 32 False) (box 28 12 32 32 True)) = - 4 \<and>
   y (resolveCollision_f64 (box 0 0 32 32 False) (box 28 12 32 32 True)) = 0 \<and>
   \<not> checkCollision_f64 (resolveCollision_f64 (box 0 0 32 32 False) (box 28 12 32 32 True))
       (box 28 12 32 32 True) \<and>
   overlapX_f64 (box 0 0 32 32 False) (box 28 28 32 32 True) = 4 \<and>
   overlapY_f64 (box 0 0 32 32 False) (box 28 28 32 32 True) = 4 \<and>
   x (resolveCollision_f64 (box 0 0 32 32 False) (box 28 28 32 32 True)) = 0 \<and>
   y (resolveCollision_f64 (box 0 0 32 32 False) (box 28 28 32 32 True)) = - 4"
proof -
  let ?A = "box 0 0 32 32 False"
  let ?B = "box 28 12 32 32 True"
  let ?C = "box 28 28 32 32 True"
  have f: "x ?A = 0" "y ?A = 0" "width ?A = 32" "height ?A = 32"
    "x ?B = 28" "y ?B = 12" "width ?B = 32" "height ?B = 32"
    "x ?C = 28" "y ?C = 28" "width ?C = 32" "height ?C = 32"
    by (simp_all add: box_defs)
  have n: "fl 28 = 28" "fl (- 4) = - 4" "fl 32 = 32" "fl 60 = 60" "fl 4 = 4" "fl 44 = 44"
    "fl 20 = 20" "fl 12 = 12"
    by (simp_all add: fl_def ulp_def roundEven_def binade_numeral powi2 Let_def)
  have o1: "overlapX_f64 ?A ?B = 4" "overlapY_f64 ?A ?B = 20"
    by (simp_all add: overlapX_f64_def overlapY_f64_def f n)
  have o2: "overlapX_f64 ?A ?C = 4" "overlapY_f64 ?A ?C = 4"
    by (simp_all add: overlapX_f64_def overlapY_f64_def f n)
  have h0: "checkCollision_f64 ?A ?B" by (simp add: checkCollision_f64_def f n)
  have h1: "overlapX_f64 ?A ?B < overlapY_f64 ?A ?B" by (simp add: o1)
  have h2: "x ?A < x ?B" by (simp add: f)
  have h3: "fl (x ?B) = x ?B \<and> fl (x ?B - width ?A) = x ?B - width ?A" by (simp add: f n)
  have h4: "\<not> overlapX_f64 ?A ?C < overlapY_f64 ?A ?C" by (simp add: o2)
  have h5: "y ?A < y ?C" by (simp add: f)
  note t1 = resolveCollision_minimum_translation [of ?A ?B, THEN conjunct1, THEN mp, OF h1]
  note t2 = resolveCollision_minimum_translation [of ?A ?C, THEN conjunct2, THEN mp, OF h4]
  from t1 have c1: "y (resolveCollision_f64 ?A ?B) = 0" by (simp add: f)
  from t1 h2 have c2: "x (resolveCollision_f64 ?A ?B) = - 4" by (simp add: f n)
  from t1 h2 h3 have c3: "\<not> checkCollision_f64 (resolveCollision_f64 ?A ?B) ?B" by blast
  from t2 have c4: "x (resolveCollision_f64 ?A ?C) = 0" by (simp add: f)
  from t2 h5 have c5: "y (resolveCollision_f64 ?A ?C) = - 4" by (simp add: f n)
  from h0 o1 o2 h2 h3 c1 c2 c3 c4 c5 show ?thesis by simp
qed

subsection \<open>Friction\<close>

lemma applyGravity_onGround: "onGround (applyGravity ph c dt) = onGround c"
  by (simp add: applyGravity_def Let_def)

lemma applyGravity_velocityX: "velocityX (applyGravity ph c dt) = velocityX c"
  by (simp add: applyGravity_def Let_def)

text \<open>
  Claim C7 as stated fails: the threshold is tested on the velocity before the scaling.
  A grounded body with \<open>velocityX = 0.011\<close> leaves the integrator with \<open>0.0088\<close>,
  below \<open>0.01\<close> and not zero.
\<close>

theorem integrate_friction_counterexample:
  "onGround ((box 0 0 32 32 False)\<lparr>onGround := True, velocityX := 0.011\<rparr>) \<and>
   \<bar>velocityX (integrate newPhysics 0.125
       ((box 0 0 32 32 False)\<lparr>onGround := True, velocityX := 0.011\<rparr>))\<bar> < 0.01 \<and>
   velocityX (integrate newPhysics 0.125
       ((box 0 0 32 32 False)\<lparr>onGround := True, velocityX := 0.011\<rparr>)) \<noteq> 0"
  by (simp add: integrate_def applyGravity_def applyFriction_def box_defs new_defs Let_def)

text \<open>
  Claim C7, amended. For a grounded body the integrator scales \<open>velocityX\<close> by the
  friction coefficient when \<open>|velocityX| > 0.01\<close> before the scaling, and sets it to
  exactly \<open>0\<close> otherwise.
\<close>

theorem integrate_friction:
  assumes "onGround c"
  shows "velocityX (integrate ph dt c) =
           (if \<bar>velocityX c\<bar> > 0.01 then velocityX c * friction ph else 0)"
  using assms
  by (simp add: integrate_def applyFriction_def applyGravity_onGround applyGravity_velocityX
        Let_def)

theorem integrate_friction_witness:
  "onGround ((box 0 0 32 32 False)\<lparr>onGround := True, velocityX := 2\<rparr>) \<and>
   velocityX (integrate newPhysics 0.125
     ((box 0 0 32 32 False)\<lparr>onGround := True, velocityX := 2\<rparr>)) = 1.6 \<and>
   velocityX (integrate newPhysics 0.125
     ((box 0 0 32 32 False)\<lparr>onGround := True, velocityX := 0.005\<rparr>)) = 0"
  using integrate_friction [of "(box 0 0 32 32 False)\<lparr>onGround := True, velocityX := 2\<rparr>"
          newPhysics "0.125"]
        integrate_friction [of "(box 0 0 32 32 False)\<lparr>onGround := True, velocityX := 0.005\<rparr>"
          newPhysics "0.125"]
  by (simp add: box_defs new_defs)

subsection \<open>Bodies of zero size\<close>

lemma numLe_refl: "numLe a a"
  by (cases a) auto

lemma numLe_trans: "numLe a b \<Longrightarrow> numLe b c \<Longrightarrow> numLe a c"
  by (cases a; cases b; cases c) auto

lemma numLe_antisym: "numLe a b \<Longrightarrow> numLe b a \<Longrightarrow> a = b"
  by (cases a; cases b) auto

lemma numLe_total: "numLe a b \<or> numLe b a"
  by (cases a; cases b) auto

lemma slabX_zero_width:
  assumes "dx \<noteq> 0" and "width c = 0"
  shows "fst (slabX sx dx c) = Num ((x c - sx) / dx)"
    and "fst (snd (slabX sx dx c)) = Num ((x c - sx) / dx)"
  using assms by (simp_all add: slabX_def Let_def numMax_def numMin_def)

lemma slabY_bounds:
  assumes "slabY sy dy c (lo, hi, nx, ny) = (lo', hi', nx', ny')"
  shows "numLe lo lo'" and "numLe hi' hi"
  using assms numLe_total [of lo] numLe_total [of hi]
  by (auto simp: slabY_def Let_def numMax_def numMin_def numLe_refl split: if_splits)

lemma slabY_zero_height:
  assumes "dy \<noteq> 0" and "height c = 0"
      and "slabY sy dy c (lo, hi, nx, ny) = (lo', hi', nx', ny')"
  shows "numLe (Num ((y c - sy) / dy)) lo'" and "numLe hi' (Num ((y c - sy) / dy))"
  using assms numLe_total [of lo "Num ((y c - sy) / dy)"]
    numLe_total [of hi "Num ((y c - sy) / dy)"]
  by (auto simp: slabY_def Let_def numMax_def numMin_def numLe_refl split: if_splits)

lemma raycastCollider_SomeD:
  assumes "raycastCollider sx sy dx dy md h c = Some ht"
      and "slabX sx dx c = (lo, hi, nx, ny)"
      and "slabY sy dy c (lo, hi, nx, ny) = (lo', hi', nx', ny')"
  shows "lo' = Num (hit_distance ht)" and "numLe lo' hi'"
    and "hit_pointX ht = sx + dx * hit_distance ht"
    and "hit_pointY ht = sy + dy * hit_distance ht"
    and "0 \<le> hit_distance ht" and "hit_distance ht \<le> md"
  using assms by (auto simp: raycastCollider_def split: if_splits number.splits)

lemma zero_width_ray:
  assumes "width c = 0" and "dx \<noteq> 0"
      and "raycastCollider sx sy dx dy md h c = Some ht"
  shows "hit_distance ht = (x c - sx) / dx" and "hit_pointX ht = x c"
proof -
  obtain lo hi nx ny where sx_eq: "slabX sx dx c = (lo, hi, nx, ny)"
    by (metis prod_cases4)
  obtain lo' hi' nx' ny' where sy_eq: "slabY sy dy c (lo, hi, nx, ny) = (lo', hi', nx', ny')"
    by (metis prod_cases4)
  from slabX_zero_width [OF assms(2,1), of sx] sx_eq
  have lo: "lo = Num ((x c - sx) / dx)" and hi: "hi = Num ((x c - sx) / dx)" by simp_all
  note b = slabY_bounds [OF sy_eq]
  note r = raycastCollider_SomeD [OF assms(3) sx_eq sy_eq]
  have "numLe lo' lo" using r(2) b(2) lo hi numLe_trans by blast
  with b(1) have "lo' = lo" using numLe_antisym by blast
  with r(1) lo show t: "hit_distance ht = (x c - sx) / dx" by simp
  with r(3) assms(2) show "hit_pointX ht = x c" by simp
qed

lemma zero_height_ray:
  assumes "height c = 0" and "dy \<noteq> 0"
      and "raycastCollider sx sy dx dy md h c = Some ht"
  shows "hit_distance ht = (y c - sy) / dy" and "hit_pointY ht = y c"
proof -
  obtain lo hi nx ny where sx_eq: "slabX sx dx c = (lo, hi, nx, ny)"
    by (metis prod_cases4)
  obtain lo' hi' nx' ny' where sy_eq: "slabY sy dy c (lo, hi, nx, ny) = (lo', hi', nx', ny')"
    by (metis prod_cases4)
  note z = slabY_zero_height [OF assms(2,1) sy_eq]
  note r = raycastCollider_SomeD [OF assms(3) sx_eq sy_eq]
  have "numLe lo' (Num ((y c - sy) / dy))" using r(2) z(2) numLe_trans by blast
  with z(1) have "lo' = Num ((y c - sy) / dy)" using numLe_antisym by blast
  with r(1) show t: "hit_distance ht = (y c - sy) / dy" by simp
  with r(4) assms(2) show "hit_pointY ht = y c" by simp
qed

text \<open>
  Claim C6 as stated fails: nothing in the engine looks at the size of a body. A body
  of width and height zero that lies inside another body overlaps it, and a
  horizontal ray hits a body of width zero.
\<close>

theorem zero_size_counterexample:
  "width (box 5 5 0 0 False) = 0 \<and> height (box 5 5 0 0 False) = 0 \<and>
   checkCollision (box 5 5 0 0 False) (box 0 0 10 10 True) \<and>
   width (box 5 0 0 10 True) = 0 \<and>
   raycastCollider 0 5 1 0 10 7 (box 5 0 0 10 True) \<noteq> None"
  by (simp add: checkCollision_def raycastCollider_def slabX_def slabY_def box_defs Let_def
        numMax_def numMin_def)

text \<open>
  Claim C6, amended. A body of zero width overlaps another body exactly when its \<open>x\<close>
  lies strictly between the vertical edges of the other body and the extents on the Y
  axis overlap, and likewise for zero height with the axes exchanged; so two bodies that
  both have zero width, or both zero height, never overlap. A ray with a component
  on the degenerate axis can hit such a body only where it crosses the body's
  coordinate on that axis.
\<close>

theorem zero_size_overlap:
  "(width A = 0 \<longrightarrow>
      (checkCollision A B \<longleftrightarrow>
         x B < x A \<and> x A < x B + width B \<and>
         y A < y B + height B \<and> y A + height A > y B)) \<and>
   (height A = 0 \<longrightarrow>
      (checkCollision A B \<longleftrightarrow>
         y B < y A \<and> y A < y B + height B \<and>
         x A < x B + width B \<and> x A + width A > x B)) \<and>
   (width A = 0 \<and> width B = 0 \<longrightarrow> \<not> checkCollision A B) \<and>
   (height A = 0 \<and> height B = 0 \<longrightarrow> \<not> checkCollision A B) \<and>
   (width A = 0 \<and> dx \<noteq> 0 \<and> raycastCollider sx sy dx dy md h A = Some ht \<longrightarrow>
      hit_distance ht = (x A - sx) / dx \<and> hit_pointX ht = x A) \<and>
   (height A = 0 \<and> dy \<noteq> 0 \<and> raycastCollider sx sy dx dy md h A = Some ht \<longrightarrow>
      hit_distance ht = (y A - sy) / dy \<and> hit_pointY ht = y A)"
proof -
  have 1: "width A = 0 \<longrightarrow>
      (checkCollision A B \<longleftrightarrow>
         x B < x A \<and> x A < x B + width B \<and>
         y A < y B + height B \<and> y A + height A > y B)"
    by (auto simp: checkCollision_def)
  have 2: "height A = 0 \<longrightarrow>
      (checkCollision A B \<longleftrightarrow>
         y B < y A \<and> y A < y B + height B \<and>
         x A < x B + width B \<and> x A + width A > x B)"
    by (auto simp: checkCollision_def)
  have 3: "width A = 0 \<and> width B = 0 \<longrightarrow> \<not> checkCollision A B"
    by (auto simp: checkCollision_def)
  have 4: "height A = 0 \<and> height B = 0 \<longrightarrow> \<not> checkCollision A B"
    by (auto simp: checkCollision_def)
  have 5: "width A = 0 \<and> dx \<noteq> 0 \<and> raycastCollider sx sy dx dy md h A = Some ht \<longrightarrow>
      hit_distance ht = (x A - sx) / dx \<and> hit_pointX ht = x A"
    using zero_width_ray by blast
  have 6: "height A = 0 \<and> dy \<noteq> 0 \<and> raycastCollider sx sy dx dy md h A = Some ht \<longrightarrow>
      hit_distance ht = (y A - sy) / dy \<and> hit_pointY ht = y A"
    using zero_height_ray by blast
  from 1 2 3 4 5 6 show ?thesis by blast
qed

theorem zero_size_overlap_witness:
  "width (box 8 4 0 0 True) = 0 \<and> height (box 8 4 0 0 True) = 0 \<and>
   width (box 8 4 0 7 True) = 0 \<and> height (box 2 4 3 0 True) = 0 \<and>
   checkCollision (box 8 4 0 0 True) (box 0 0 10 10 True) \<and>
   \<not> checkCollision (box 8 4 0 0 True) (box 8 4 0 7 True) \<and>
   \<not> checkCollision (box 8 4 0 0 True) (box 2 4 3 0 True) \<and>
   (3 / 5 :: real) \<noteq> 0 \<and> (4 / 5 :: real) \<noteq> 0 \<and>
   raycastCollider 5 0 (3 / 5) (4 / 5) 10 7 (box 8 4 0 0 True) =
     Some \<lparr> hit_collider = 7, hit_distance = 5, hit_pointX = 8, hit_pointY = 4,
            hit_normalX = 1, hit_normalY = 0 \<rparr>"
  using zero_size_overlap [of "box 8 4 0 0 True" "box 0 0 10 10 True" "3 / 5" 5 0 "4 / 5" 10 7
          "\<lparr> hit_collider = 7, hit_distance = 5, hit_pointX = 8, hit_pointY = 4,
             hit_normalX = 1, hit_normalY = 0 \<rparr>"]
        zero_size_overlap [of "box 8 4 0 0 True" "box 8 4 0 7 True" "3 / 5" 5 0 "4 / 5" 10 7
          "\<lparr> hit_collider = 7, hit_distance = 5, hit_pointX = 8, hit_pointY = 4,
             hit_normalX = 1, hit_normalY = 0 \<rparr>"]
        zero_size_overlap [of "box 8 4 0 0 True" "box 2 4 3 0 True" "3 / 5" 5 0 "4 / 5" 10 7
          "\<lparr> hit_collider = 7, hit_distance = 5, hit_pointX = 8, hit_pointY = 4,
             hit_normalX = 1, hit_normalY = 0 \<rparr>"]
  by (simp add: checkCollision_def raycastCollider_def slabX_def slabY_def box_defs Let_def
        numMax_def numMin_def)

subsection \<open>Rays parallel to an axis\<close>

text \<open>
  Claim C2 at a ray parallel to the X axis. When the direction has no component on an
  axis, \<^verbatim>\<open>raycastCollider\<close> skips the block of that axis and never compares the start
  of the ray with the extent of the body there. The ray from \<open>(0, 1000)\<close> to
  \<open>(100, 1000)\<close> passes far below the body that covers \<open>y\<close> from \<open>0\<close> to \<open>32\<close>, and
  \<^verbatim>\<open>raycast\<close> still reports a hit on it, at distance \<open>50\<close>.
\<close>

theorem raycast_parallel_ray_hits_outside_extent:
  "raycast (addCollider newPhysics 7 (rawBox 50 0 32 32 True)) 0 1000 100 1000 0xFFFF =
     Some \<lparr> hit_collider = 7, hit_distance = 50, hit_pointX = 50, hit_pointY = 1000,
            hit_normalX = - 1, hit_normalY = 0 \<rparr>"
  by (simp add: raycast_def raycastStep_def raycastCollider_def slabX_def slabY_def
        addCollider_def box_defs new_defs Let_def numMax_def numMin_def numLess_def)

subsection \<open>What a tick leaves alone\<close>

lemma frame_refl: "frame S ph ph"
  by (simp add: frame_def)

lemma frame_trans: "frame S ph ph1 \<Longrightarrow> frame S ph1 ph2 \<Longrightarrow> frame S ph ph2"
  by (simp add: frame_def)

lemma frame_mono: "frame S ph ph' \<Longrightarrow> S \<subseteq> T \<Longrightarrow> frame T ph ph'"
  by (auto simp: frame_def)


lemma frame_shape: "frame S ph ph' \<Longrightarrow> shape (objects ph' h) = shape (objects ph h)"
  by (simp add: frame_def)

lemma frame_lists:
  assumes "frame S ph ph'"
  shows "staticColliders ph' = staticColliders ph"
    and "dynamicColliders ph' = dynamicColliders ph"
    and "colliders ph' = colliders ph"
  using assms by (simp_all add: frame_def)



lemma shape_resolveCollision: "shape (resolveCollision A B) = shape A"
  by (simp add: shape_def resolveCollision_def)

lemma shape_integrate: "shape (integrate ph dt c) = shape c"
  by (simp add: integrate_def Let_def shape_def applyGravity_def applyFriction_def)

lemma shape_onGround: "shape (b\<lparr>onGround := v\<rparr>) = shape b"
  by (simp add: shape_def)

lemma notify_fields:
  "objects (notify ph r a) = objects ph"
  "gravity (notify ph r a) = gravity ph"
  "friction (notify ph r a) = friction ph"
  "terminalVelocity (notify ph r a) = terminalVelocity ph"
  "colliders (notify ph r a) = colliders ph"
  "staticColliders (notify ph r a) = staticColliders ph"
  "dynamicColliders (notify ph r a) = dynamicColliders ph"
  by (simp_all add: notify_def)

lemma frame_collide: "frame {c} ph (collide ph c other)"
  by (simp add: frame_def collide_def Let_def notify_fields shape_resolveCollision)

lemma frame_staticStep: "frame {c} ph (staticStep c s ph)"
  by (simp add: staticStep_def frame_collide frame_refl)

lemma frame_dynamicStep: "frame {c} ph (dynamicStep c other ph)"
  by (simp add: dynamicStep_def frame_collide frame_refl)

lemma frame_fold:
  assumes "\<And>s p. frame S p (f s p)"
  shows "frame S ph (fold f ss ph)"
proof (induction ss arbitrary: ph)
  case Nil
  show ?case by (simp add: frame_refl)
next
  case (Cons s ss)
  have "frame S ph (f s ph)" by (rule assms)
  moreover have "frame S (f s ph) (fold f ss (f s ph))" by (rule Cons.IH)
  ultimately show ?case using frame_trans by simp
qed

text \<open>The states of one iteration of the outer loop, for an active \<open>c\<close>.\<close>

lemma updateCollider_unfold:
  assumes "active (objects ph c)"
      and "ph1 = ph\<lparr>objects := (objects ph)(c := integrate ph dt (objects ph c))\<rparr>"
      and "ph2 = fold (staticStep c) (staticColliders ph1) ph1"
      and "ph3 = fold (dynamicStep c) (dynamicColliders ph2) ph2"
      and "ph4 = ph3\<lparr>objects := (objects ph3)(c := (objects ph3 c)\<lparr>onGround := False\<rparr>)\<rparr>"
  shows "updateCollider dt c ph =
           (if groundScan ph4 c (staticColliders ph4)
            then ph4\<lparr>objects := (objects ph4)(c := (objects ph4 c)\<lparr>onGround := True\<rparr>)\<rparr>
            else ph4)"
  using assms by (simp add: updateCollider_def Let_def)

lemma frame_updateCollider: "frame {c} ph (updateCollider dt c ph)"
proof (cases "active (objects ph c)")
  case False
  then show ?thesis by (simp add: updateCollider_def frame_refl)
next
  case True
  define ph1 where "ph1 = ph\<lparr>objects := (objects ph)(c := integrate ph dt (objects ph c))\<rparr>"
  define ph2 where "ph2 = fold (staticStep c) (staticColliders ph1) ph1"
  define ph3 where "ph3 = fold (dynamicStep c) (dynamicColliders ph2) ph2"
  define ph4 where "ph4 = ph3\<lparr>objects := (objects ph3)(c := (objects ph3 c)\<lparr>onGround := False\<rparr>)\<rparr>"
  define ph5 where "ph5 = ph4\<lparr>objects := (objects ph4)(c := (objects ph4 c)\<lparr>onGround := True\<rparr>)\<rparr>"
  have f1: "frame {c} ph ph1" by (simp add: ph1_def frame_def shape_integrate)
  have f2: "frame {c} ph1 ph2" unfolding ph2_def by (rule frame_fold) (rule frame_staticStep)
  have f3: "frame {c} ph2 ph3" unfolding ph3_def by (rule frame_fold) (rule frame_dynamicStep)
  have f4: "frame {c} ph3 ph4" by (simp add: ph4_def frame_def shape_def)
  have f5: "frame {c} ph4 ph5" by (simp add: ph5_def frame_def shape_def)
  have r4: "frame {c} ph ph4" using f1 f2 f3 f4 frame_trans by blast
  have r5: "frame {c} ph ph5" using r4 f5 frame_trans by blast
  have "updateCollider dt c ph = (if groundScan ph4 c (staticColliders ph4) then ph5 else ph4)"
    unfolding ph5_def using True ph1_def ph2_def ph3_def ph4_def by (rule updateCollider_unfold)
  then show ?thesis using r4 r5 by simp
qed



lemma fold_invariant:
  assumes "I ph" and "\<And>x p. I p \<Longrightarrow> I (f x p)"
  shows "I (fold f xs ph)"
  using assms(1) by (induction xs arbitrary: ph) (simp_all add: assms(2))

text \<open>What a detected overlap does: one correction, then the two callbacks.\<close>

lemma collide_detected:
  assumes "checkCollision (objects ph c) (objects ph other)"
  shows "objects (collide ph c other) =
           (objects ph)(c := resolveCollision (objects ph c) (objects ph other))"
    and "calls (collide ph c other) =
           calls ph @
           (if onCollision (objects (collide ph c other) c)
            then [OnCollision c other (objects (collide ph c other) c)
                    (objects (collide ph c other) other)]
            else []) @
           (if onCollision (objects (collide ph c other) other)
            then [OnCollision other c (objects (collide ph c other) other)
                    (objects (collide ph c other) c)]
            else [])"
proof -
  define ph1 where "ph1 = ph\<lparr>objects := (objects ph)
              (c := resolveCollision (objects ph c) (objects ph other))\<rparr>"
  have u: "collide ph c other = notify (notify ph1 c other) other c"
    using assms by (simp add: collide_def Let_def ph1_def)
  show o: "objects (collide ph c other) =
           (objects ph)(c := resolveCollision (objects ph c) (objects ph other))"
    unfolding u by (simp add: notify_fields ph1_def)
  have o1: "objects ph1 = objects (collide ph c other)"
    unfolding o by (simp add: ph1_def)
  have c1: "calls ph1 = calls ph" by (simp add: ph1_def)
  have "calls (notify (notify ph1 c other) other c) =
           calls ph1 @
           (if onCollision (objects ph1 c)
            then [OnCollision c other (objects ph1 c) (objects ph1 other)] else []) @
           (if onCollision (objects ph1 other)
            then [OnCollision other c (objects ph1 other) (objects ph1 c)] else [])"
    by (simp add: notify_def)
  then show "calls (collide ph c other) =
           calls ph @
           (if onCollision (objects (collide ph c other) c)
            then [OnCollision c other (objects (collide ph c other) c)
                    (objects (collide ph c other) other)]
            else []) @
           (if onCollision (objects (collide ph c other) other)
            then [OnCollision other c (objects (collide ph c other) other)
                    (objects (collide ph c other) c)]
            else [])"
    unfolding u [symmetric] o1 c1 .
qed

lemma fold_updateCollider_unchanged:
  "h \<notin> set cs \<or> \<not> active (objects ph h) \<Longrightarrow>
     objects (fold (updateCollider dt) cs ph) h = objects ph h"
proof (induction cs arbitrary: ph)
  case Nil
  show ?case by simp
next
  case (Cons c cs)
  show ?case
  proof (cases "c = h")
    case True
    with Cons.prems have "\<not> active (objects ph h)" by simp
    with True have "updateCollider dt c ph = ph" by (simp add: updateCollider_def)
    with Cons.IH [of ph] Cons.prems True show ?thesis by simp
  next
    case False
    have "frame {c} ph (updateCollider dt c ph)" by (rule frame_updateCollider)
    with False have eq: "objects (updateCollider dt c ph) h = objects ph h"
      by (simp add: frame_def)
    with Cons.prems False have "h \<notin> set cs \<or> \<not> active (objects (updateCollider dt c ph) h)"
      by auto
    from Cons.IH [OF this] eq show ?thesis by simp
  qed
qed

text \<open>
  Claim C10. \<^verbatim>\<open>update\<close> leaves every field of an object unchanged when the object is
  not in \<^verbatim>\<open>dynamicColliders\<close>, or is inactive, or is flagged static in a well-formed
  registry (where a static body sits in \<^verbatim>\<open>staticColliders\<close> only): integration,
  resolution and the grounding scan write to the object of the current iteration only,
  and an inactive one is skipped before anything is written.
\<close>

theorem update_static_inactive_unchanged:
  "h \<notin> set (dynamicColliders ph) \<or> \<not> active (objects ph h) \<or>
   (wellFormed ph \<and> isStatic (objects ph h)) \<Longrightarrow>
     objects (update ph dt) h = objects ph h"
proof -
  assume "h \<notin> set (dynamicColliders ph) \<or> \<not> active (objects ph h) \<or>
          (wellFormed ph \<and> isStatic (objects ph h))"
  then have "h \<notin> set (dynamicColliders ph) \<or> \<not> active (objects ph h)"
    by (auto simp: wellFormed_def)
  then show ?thesis unfolding update_def by (rule fold_updateCollider_unchanged)
qed

theorem update_static_inactive_unchanged_witness:
  "0 \<notin> set (dynamicColliders floorWorld) \<and>
   0 \<in> set (staticColliders floorWorld) \<and>
   wellFormed floorWorld \<and> isStatic (objects floorWorld 0) \<and>
   objects (update floorWorld 0.125) 0 = objects floorWorld 0 \<and>
   1 \<in> set (dynamicColliders sleeperWorld) \<and>
   \<not> active (objects sleeperWorld 1) \<and>
   objects (update sleeperWorld 0.125) 1 = objects sleeperWorld 1"
proof -
  have a: "0 \<notin> set (dynamicColliders floorWorld)" "0 \<in> set (staticColliders floorWorld)"
    "isStatic (objects floorWorld 0)"
    by (simp_all add: floorWorld_def addCollider_def box_defs new_defs Let_def)
  have w: "wellFormed floorWorld"
    by (auto simp: wellFormed_def floorWorld_def addCollider_def box_defs new_defs Let_def)
  have b: "1 \<in> set (dynamicColliders sleeperWorld)" "\<not> active (objects sleeperWorld 1)"
    by (simp_all add: sleeperWorld_def addCollider_def box_defs new_defs Let_def)
  from update_static_inactive_unchanged [of 0 floorWorld "0.125"]
       update_static_inactive_unchanged [of 1 sleeperWorld "0.125"] a w b
  show ?thesis by simp
qed

subsection \<open>The grounding scan\<close>

lemma groundScan_iff:
  "groundScan ph c ss \<longleftrightarrow>
     (\<exists>s \<in> set ss. gate (objects ph c) (objects ph s) \<and>
                    checkGrounded (objects ph c) (objects ph s))"
  by (induction ss) (auto simp: gate_def)

lemma gate_cong:
  "shape A' = shape A \<Longrightarrow> shape B' = shape B \<Longrightarrow> gate A' B' = gate A B"
  by (simp add: gate_def shape_def)

lemma checkGrounded_onGround:
  "checkGrounded (A\<lparr>onGround := v\<rparr>) B = checkGrounded A B"
  "checkGrounded A (B\<lparr>onGround := v\<rparr>) = checkGrounded A B"
  by (simp_all add: checkGrounded_def)

lemma gate_onGround:
  "gate (A\<lparr>onGround := v\<rparr>) B = gate A B"
  "gate A (B\<lparr>onGround := v\<rparr>) = gate A B"
  by (simp_all add: gate_def)

lemma groundScan_onGround:
  "groundScan (ph\<lparr>objects := (objects ph)(c := (objects ph c)\<lparr>onGround := v\<rparr>)\<rparr>) c ss =
   groundScan ph c ss"
  by (auto simp: groundScan_iff checkGrounded_onGround gate_onGround)

lemma groundScan_frame:
  assumes "objects ph' c = objects ph c"
      and "\<And>s. s \<in> set ss \<Longrightarrow> objects ph' s = objects ph s"
  shows "groundScan ph' c ss = groundScan ph c ss"
  using assms by (simp add: groundScan_iff)

text \<open>After its own iteration the flag of an active object is the result of the scan.\<close>

lemma updateCollider_onGround:
  assumes "active (objects ph c)"
  shows "onGround (objects (updateCollider dt c ph) c) =
           groundScan (updateCollider dt c ph) c (staticColliders (updateCollider dt c ph))"
proof -
  define ph1 where "ph1 = ph\<lparr>objects := (objects ph)(c := integrate ph dt (objects ph c))\<rparr>"
  define ph2 where "ph2 = fold (staticStep c) (staticColliders ph1) ph1"
  define ph3 where "ph3 = fold (dynamicStep c) (dynamicColliders ph2) ph2"
  define ph4 where "ph4 = ph3\<lparr>objects := (objects ph3)(c := (objects ph3 c)\<lparr>onGround := False\<rparr>)\<rparr>"
  define ph5 where "ph5 = ph4\<lparr>objects := (objects ph4)(c := (objects ph4 c)\<lparr>onGround := True\<rparr>)\<rparr>"
  have u: "updateCollider dt c ph = (if groundScan ph4 c (staticColliders ph4) then ph5 else ph4)"
    unfolding ph5_def using assms ph1_def ph2_def ph3_def ph4_def by (rule updateCollider_unfold)
  have g5: "groundScan ph5 c (staticColliders ph5) = groundScan ph4 c (staticColliders ph4)"
    unfolding ph5_def using groundScan_onGround [of ph4 c True] by simp
  have o4: "\<not> onGround (objects ph4 c)" by (simp add: ph4_def)
  have o5: "onGround (objects ph5 c)" by (simp add: ph5_def)
  show ?thesis using u g5 o4 o5 by simp
qed

lemma fold_updateCollider_onGround:
  assumes "set cs \<inter> set (staticColliders ph) = {}"
      and "active (objects ph c)"
      and "c \<in> set cs \<or> onGround (objects ph c) = groundScan ph c (staticColliders ph)"
  shows "onGround (objects (fold (updateCollider dt) cs ph) c) =
           groundScan (fold (updateCollider dt) cs ph) c
             (staticColliders (fold (updateCollider dt) cs ph))"
  using assms
proof (induction cs arbitrary: ph)
  case Nil
  then show ?case by simp
next
  case (Cons d cs)
  let ?ph1 = "updateCollider dt d ph"
  have fr: "frame {d} ph ?ph1" by (rule frame_updateCollider)
  have st: "staticColliders ?ph1 = staticColliders ph" using fr by (rule frame_lists)
  have act: "active (objects ?ph1 c)"
    using frame_shape [OF fr, of c] Cons.prems(2) by (simp add: shape_def)
  have dis: "set cs \<inter> set (staticColliders ?ph1) = {}" using Cons.prems(1) st by auto
  have "c \<in> set cs \<or> onGround (objects ?ph1 c) = groundScan ?ph1 c (staticColliders ?ph1)"
  proof (cases "d = c")
    case True
    with Cons.prems(2) show ?thesis using updateCollider_onGround [of ph c dt] by simp
  next
    case False
    show ?thesis
    proof (cases "c \<in> set cs")
      case True
      then show ?thesis by simp
    next
      case notin: False
      with False Cons.prems(3)
      have g: "onGround (objects ph c) = groundScan ph c (staticColliders ph)" by simp
      have oc: "objects ?ph1 c = objects ph c" using fr False by (simp add: frame_def)
      have os: "objects ?ph1 s = objects ph s" if "s \<in> set (staticColliders ph)" for s
      proof -
        from that Cons.prems(1) have "s \<noteq> d" by auto
        with fr show ?thesis by (simp add: frame_def)
      qed
      have "groundScan ?ph1 c (staticColliders ph) = groundScan ph c (staticColliders ph)"
        using oc os by (rule groundScan_frame)
      with g oc st show ?thesis by simp
    qed
  qed
  from Cons.IH [OF dis act this] show ?case by simp
qed

text \<open>
  Claim C3, amended. At the end of \<^verbatim>\<open>update\<close>, for every active object of
  \<^verbatim>\<open>dynamicColliders\<close> (no object being in both partitions), \<^verbatim>\<open>onGround\<close> is true exactly
  when some active static object that passes the mask test lies at most one unit from
  the bottom edge of the body, measured at its top edge, with overlapping horizontal
  extents. The scan runs in every iteration and overwrites what the resolution wrote,
  so a body that only a dynamic body supports ends the tick with \<^verbatim>\<open>onGround\<close> false.
\<close>

theorem update_onGround_classifier:
  assumes "c \<in> set (dynamicColliders ph)" and "active (objects ph c)"
      and "set (staticColliders ph) \<inter> set (dynamicColliders ph) = {}"
  shows "onGround (objects (update ph dt) c) \<longleftrightarrow>
           (\<exists>s \<in> set (staticColliders (update ph dt)).
              active (objects (update ph dt) s) \<and>
              collisionMask (objects (update ph dt) c) AND
                collisionLayer (objects (update ph dt) s) \<noteq> 0 \<and>
              \<bar>y (objects (update ph dt) c) + height (objects (update ph dt) c)
                 - y (objects (update ph dt) s)\<bar> \<le> 1 \<and>
              x (objects (update ph dt) c)
                 < x (objects (update ph dt) s) + width (objects (update ph dt) s) \<and>
              x (objects (update ph dt) c) + width (objects (update ph dt) c)
                 > x (objects (update ph dt) s))"
proof -
  have "set (dynamicColliders ph) \<inter> set (staticColliders ph) = {}" using assms(3) by auto
  from fold_updateCollider_onGround [OF this assms(2), where dt = dt] assms(1)
  have "onGround (objects (update ph dt) c) =
          groundScan (update ph dt) c (staticColliders (update ph dt))"
    by (simp add: update_def)
  then show ?thesis
    by (simp add: groundScan_iff gate_def checkGrounded_def groundCheckOffset_def)
qed

text \<open>
  The body that stands on the floor is grounded after a tick, and the floor is the
  static body that the scan finds.
\<close>

theorem update_onGround_classifier_witness:
  "1 \<in> set (dynamicColliders restWorld) \<and> active (objects restWorld 1) \<and>
   set (staticColliders restWorld) \<inter> set (dynamicColliders restWorld) = {} \<and>
   onGround (objects (update restWorld 0.125) 1) \<and>
   (\<exists>s \<in> set (staticColliders (update restWorld 0.125)).
      active (objects (update restWorld 0.125) s) \<and>
      collisionMask (objects (update restWorld 0.125) 1) AND
        collisionLayer (objects (update restWorld 0.125) s) \<noteq> 0 \<and>
      \<bar>y (objects (update restWorld 0.125) 1) + height (objects (update restWorld 0.125) 1)
         - y (objects (update restWorld 0.125) s)\<bar> \<le> 1 \<and>
      x (objects (update restWorld 0.125) 1)
         < x (objects (update restWorld 0.125) s) + width (objects (update restWorld 0.125) s) \<and>
      x (objects (update restWorld 0.125) 1) + width (objects (update restWorld 0.125) 1)
         > x (objects (update restWorld 0.125) s))"
proof -
  have h1: "1 \<in> set (dynamicColliders restWorld)"
    and h2: "active (objects restWorld 1)"
    and h3: "set (staticColliders restWorld) \<inter> set (dynamicColliders restWorld) = {}"
    by (simp_all add: restWorld_def addCollider_def box_defs new_defs Let_def)
  have g: "onGround (objects (update restWorld 0.125) 1)"
    by (simp add: restWorld_def tick_defs)
  from update_onGround_classifier [OF h1 h2 h3, of "0.125"] g h1 h2 h3
  show ?thesis by simp
qed

text \<open>
  Claim C3 as stated fails where the support is a dynamic body. The falling body of
  \<open>perchWorld\<close> is resolved from above onto the other dynamic body: its callback sees
  \<^verbatim>\<open>onGround\<close> true, and it ends the tick standing exactly on that body. The scan looks
  at static bodies only, and the flag is false when the tick ends.
\<close>

theorem update_onGround_dynamic_support_counterexample:
  "receiver (calls (update perchWorld 0.125) ! 0) = 0 \<and>
   argument (calls (update perchWorld 0.125) ! 0) = 1 \<and>
   onGround (receiverSeen (calls (update perchWorld 0.125) ! 0)) \<and>
   y (objects (update perchWorld 0.125) 0) + height (objects (update perchWorld 0.125) 0) =
     y (objects (update perchWorld 0.125) 1) \<and>
   \<not> onGround (objects (update perchWorld 0.125) 0)"
  by (simp add: perchWorld_def tick_defs)

subsection \<open>Iterations without a collision\<close>

lemma staticStep_gate:
  "staticStep c s ph =
     (if gate (objects ph c) (objects ph s) then collide ph c s else ph)"
  by (simp add: staticStep_def gate_def)

lemma dynamicStep_gate:
  "dynamicStep c other ph =
     (if c \<noteq> other \<and> gate (objects ph c) (objects ph other) then collide ph c other else ph)"
  by (simp add: dynamicStep_def gate_def)

lemma fold_staticStep_id:
  assumes "\<And>s. s \<in> set ss \<Longrightarrow>
             \<not> (gate (objects ph c) (objects ph s) \<and>
                checkCollision (objects ph c) (objects ph s))"
  shows "fold (staticStep c) ss ph = ph"
  using assms by (induction ss) (auto simp: staticStep_gate collide_def)

lemma fold_dynamicStep_id:
  assumes "\<And>d. d \<in> set ds \<Longrightarrow> d = c \<or>
             \<not> (gate (objects ph c) (objects ph d) \<and>
                checkCollision (objects ph c) (objects ph d))"
  shows "fold (dynamicStep c) ds ph = ph"
  using assms by (induction ds) (auto simp: dynamicStep_gate collide_def)

text \<open>An iteration of the outer loop in which no overlap is detected.\<close>

lemma updateCollider_no_collision:
  assumes act: "active (objects ph c)"
      and A1: "A1 = integrate ph dt (objects ph c)"
      and cs: "c \<notin> set (staticColliders ph)"
      and st: "\<And>s. s \<in> set (staticColliders ph) \<Longrightarrow>
                 \<not> (gate A1 (objects ph s) \<and> checkCollision A1 (objects ph s))"
      and dy: "\<And>d. d \<in> set (dynamicColliders ph) \<Longrightarrow> d = c \<or>
                 \<not> (gate A1 (objects ph d) \<and> checkCollision A1 (objects ph d))"
  shows "updateCollider dt c ph =
           ph\<lparr>objects := (objects ph)
                (c := A1\<lparr>onGround :=
                   (\<exists>s \<in> set (staticColliders ph).
                      gate A1 (objects ph s) \<and> checkGrounded A1 (objects ph s))\<rparr>)\<rparr>"
proof -
  define ph1 where "ph1 = ph\<lparr>objects := (objects ph)(c := A1)\<rparr>"
  define ph4 where "ph4 = ph1\<lparr>objects := (objects ph1)(c := (objects ph1 c)\<lparr>onGround := False\<rparr>)\<rparr>"
  have o1: "objects ph1 c = A1" by (simp add: ph1_def)
  have o1s: "objects ph1 s = objects ph s" if "s \<in> set (staticColliders ph)" for s
    using that cs by (auto simp: ph1_def)
  have o1d: "objects ph1 d = objects ph d" if "d \<noteq> c" for d
    using that by (simp add: ph1_def)
  have l1: "staticColliders ph1 = staticColliders ph" "dynamicColliders ph1 = dynamicColliders ph"
    by (simp_all add: ph1_def)
  have f2: "fold (staticStep c) (staticColliders ph1) ph1 = ph1"
  proof (rule fold_staticStep_id)
    fix s assume "s \<in> set (staticColliders ph1)"
    then have "s \<in> set (staticColliders ph)" by (simp add: l1)
    from st [OF this] o1s [OF this] o1
    show "\<not> (gate (objects ph1 c) (objects ph1 s) \<and>
             checkCollision (objects ph1 c) (objects ph1 s))" by simp
  qed
  have f3: "fold (dynamicStep c) (dynamicColliders ph1) ph1 = ph1"
  proof (rule fold_dynamicStep_id)
    fix d assume "d \<in> set (dynamicColliders ph1)"
    then have "d \<in> set (dynamicColliders ph)" by (simp add: l1)
    from dy [OF this] o1d [of d] o1
    show "d = c \<or> \<not> (gate (objects ph1 c) (objects ph1 d) \<and>
             checkCollision (objects ph1 c) (objects ph1 d))" by auto
  qed
  have u: "updateCollider dt c ph =
           (if groundScan ph4 c (staticColliders ph4)
            then ph4\<lparr>objects := (objects ph4)(c := (objects ph4 c)\<lparr>onGround := True\<rparr>)\<rparr>
            else ph4)"
  proof (rule updateCollider_unfold [OF act])
    show "ph1 = ph\<lparr>objects := (objects ph)(c := integrate ph dt (objects ph c))\<rparr>"
      by (simp add: ph1_def A1)
    show "ph1 = fold (staticStep c) (staticColliders ph1) ph1" by (simp add: f2)
    show "ph1 = fold (dynamicStep c) (dynamicColliders ph1) ph1" by (simp add: f3)
    show "ph4 = ph1\<lparr>objects := (objects ph1)(c := (objects ph1 c)\<lparr>onGround := False\<rparr>)\<rparr>"
      by (simp add: ph4_def)
  qed
  have g4: "groundScan ph4 c (staticColliders ph4) = groundScan ph1 c (staticColliders ph)"
    unfolding ph4_def using groundScan_onGround [of ph1 c False] by (simp add: l1)
  define G where "G \<longleftrightarrow> (\<exists>s \<in> set (staticColliders ph).
                      gate A1 (objects ph s) \<and> checkGrounded A1 (objects ph s))"
  have g1: "groundScan ph1 c (staticColliders ph) = G"
    unfolding G_def using o1 o1s by (auto simp: groundScan_iff)
  have "updateCollider dt c ph = ph\<lparr>objects := (objects ph)(c := A1\<lparr>onGround := G\<rparr>)\<rparr>"
    unfolding u g4 g1 by (cases G) (simp_all add: ph4_def ph1_def)
  then show ?thesis unfolding G_def .
qed

lemma pose_cong:
  assumes "x A' = x A" and "y A' = y A" and "shape A' = shape A"
  shows "checkCollision A' B = checkCollision A B"
    and "checkGrounded A' B = checkGrounded A B"
    and "gate A' B = gate A B"
  using assms by (simp_all add: checkCollision_def checkGrounded_def gate_def shape_def)

lemma integrate_resting:
  assumes "onGround A" and "velocityX A = 0" and "velocityY A = 0"
  shows "integrate ph dt A = A\<lparr>prevX := Some (x A), prevY := Some (y A)\<rparr>"
  using assms by (simp add: integrate_def applyGravity_def applyFriction_def Let_def)

lemma updateCollider_resting_self:
  assumes r: "restingOn ph a s"
  shows "updateCollider dt a ph =
           ph\<lparr>objects := (objects ph)
             (a := (objects ph a)\<lparr>prevX := Some (x (objects ph a)),
                                  prevY := Some (y (objects ph a))\<rparr>)\<rparr>"
proof -
  let ?A = "objects ph a"
  define A1 where "A1 = ?A\<lparr>prevX := Some (x ?A), prevY := Some (y ?A)\<rparr>"
  have i: "A1 = integrate ph dt ?A"
    using r by (simp add: A1_def restingOn_def integrate_resting)
  have p: "x A1 = x ?A" "y A1 = y ?A" "shape A1 = shape ?A"
    by (simp_all add: A1_def shape_def)
  note pc = pose_cong [OF p]
  have act: "active ?A" using r by (simp add: restingOn_def)
  have ns: "a \<notin> set (staticColliders ph)" using r by (auto simp: restingOn_def)
  have st: "\<not> (gate A1 (objects ph t) \<and> checkCollision A1 (objects ph t))"
    if "t \<in> set (staticColliders ph)" for t
    using r that by (simp add: restingOn_def pc)
  have dy: "d = a \<or> \<not> (gate A1 (objects ph d) \<and> checkCollision A1 (objects ph d))"
    if "d \<in> set (dynamicColliders ph)" for d
    using r that by (auto simp: restingOn_def pc)
  have "checkGrounded ?A (objects ph s)"
    using r by (simp add: restingOn_def checkGrounded_def groundCheckOffset_def)
  then have "gate A1 (objects ph s) \<and> checkGrounded A1 (objects ph s)"
    using r by (simp add: restingOn_def pc)
  moreover have "s \<in> set (staticColliders ph)" using r by (simp add: restingOn_def)
  ultimately have G: "\<exists>t \<in> set (staticColliders ph).
                      gate A1 (objects ph t) \<and> checkGrounded A1 (objects ph t)" by blast
  have og: "onGround A1" using r by (simp add: A1_def restingOn_def)
  have "A1\<lparr>onGround := True\<rparr> = A1" using og by simp
  with updateCollider_no_collision [OF act i ns st dy] G
  show ?thesis by (simp add: A1_def)
qed

lemma restingOn_updateCollider:
  assumes r: "restingOn ph a s" and d: "d \<in> set (dynamicColliders ph)"
  shows "restingOn (updateCollider dt d ph) a s"
    and "x (objects (updateCollider dt d ph) a) = x (objects ph a)"
    and "y (objects (updateCollider dt d ph) a) = y (objects ph a)"
proof -
  let ?ph' = "updateCollider dt d ph"
  have "restingOn ?ph' a s \<and> x (objects ?ph' a) = x (objects ph a) \<and>
        y (objects ?ph' a) = y (objects ph a)"
  proof (cases "d = a")
    case True
    have u: "?ph' = ph\<lparr>objects := (objects ph)
             (a := (objects ph a)\<lparr>prevX := Some (x (objects ph a)),
                                  prevY := Some (y (objects ph a))\<rparr>)\<rparr>"
      unfolding True using r by (rule updateCollider_resting_self)
    have ns: "a \<notin> set (staticColliders ph)" using r by (auto simp: restingOn_def)
    then have "s \<noteq> a" using r by (auto simp: restingOn_def)
    have gs: "gate ((objects ph a)\<lparr>prevX := px, prevY := py\<rparr>) B = gate (objects ph a) B"
      for px py B by (simp add: gate_def)
    have cs: "checkCollision ((objects ph a)\<lparr>prevX := px, prevY := py\<rparr>) B =
              checkCollision (objects ph a) B"
      for px py B by (simp add: checkCollision_def)
    show ?thesis unfolding u using r ns \<open>s \<noteq> a\<close>
      by (auto simp: restingOn_def gs cs)
  next
    case False
    have fr: "frame {d} ph ?ph'" by (rule frame_updateCollider)
    have oa: "objects ?ph' a = objects ph a" using fr False by (simp add: frame_def)
    have os: "objects ?ph' t = objects ph t" if "t \<in> set (staticColliders ph)" for t
    proof -
      from that d r have "t \<noteq> d" by (auto simp: restingOn_def)
      with fr show ?thesis by (simp add: frame_def)
    qed
    have sh: "shape (objects ?ph' e) = shape (objects ph e)" for e
      using fr by (rule frame_shape)
    have gd: "gate (objects ph a) (objects ?ph' e) = gate (objects ph a) (objects ph e)" for e
      using sh [of e] by (simp add: gate_def shape_def)
    note l = frame_lists [OF fr]
    show ?thesis using r oa os gd l
      by (simp add: restingOn_def)
  qed
  then show "restingOn ?ph' a s"
    and "x (objects ?ph' a) = x (objects ph a)"
    and "y (objects ?ph' a) = y (objects ph a)" by simp_all
qed

lemma restingOn_fold:
  assumes "restingOn ph a s" and "set cs \<subseteq> set (dynamicColliders ph)"
  shows "restingOn (fold (updateCollider dt) cs ph) a s \<and>
         x (objects (fold (updateCollider dt) cs ph) a) = x (objects ph a) \<and>
         y (objects (fold (updateCollider dt) cs ph) a) = y (objects ph a)"
  using assms
proof (induction cs arbitrary: ph)
  case Nil
  then show ?case by simp
next
  case (Cons d cs)
  from Cons.prems have d: "d \<in> set (dynamicColliders ph)" by simp
  note step = restingOn_updateCollider [OF Cons.prems(1) d, of dt]
  have "dynamicColliders (updateCollider dt d ph) = dynamicColliders ph"
    using frame_updateCollider [of d ph dt] by (rule frame_lists)
  with Cons.prems have "set cs \<subseteq> set (dynamicColliders (updateCollider dt d ph))" by simp
  from Cons.IH [OF step(1) this] step(2,3) show ?case by simp
qed

lemma restingOn_update:
  assumes "restingOn ph a s"
  shows "restingOn (update ph dt) a s"
    and "x (objects (update ph dt) a) = x (objects ph a)"
    and "y (objects (update ph dt) a) = y (objects ph a)"
  using restingOn_fold [OF assms, of "dynamicColliders ph" dt] by (simp_all add: update_def)

lemma restingOn_ticks:
  assumes "restingOn ph a s"
  shows "restingOn (ticks n dt ph) a s \<and>
         x (objects (ticks n dt ph) a) = x (objects ph a) \<and>
         y (objects (ticks n dt ph) a) = y (objects ph a)"
  using assms
proof (induction n arbitrary: ph)
  case 0
  then show ?case by simp
next
  case (Suc n)
  note u = restingOn_update [OF Suc.prems, of dt]
  from Suc.IH [OF u(1)] u(2,3) show ?case by simp
qed

text \<open>
  Claim C8, amended. A dynamic body that rests on a static surface in the sense of
  \<open>restingOn\<close> (bottom edge on the top edge of the surface, overlapping horizontal
  extents, no velocity, and moreover: already flagged as grounded, overlapping no
  static body it can see, seeing no other dynamic body) keeps its position and its
  \<^verbatim>\<open>onGround\<close> flag through any number of ticks, whatever \<open>dt\<close>.
\<close>

theorem resting_body_stays:
  assumes "restingOn ph a s"
  shows "x (objects (ticks n dt ph) a) = x (objects ph a) \<and>
         y (objects (ticks n dt ph) a) = y (objects ph a) \<and>
         onGround (objects (ticks n dt ph) a)"
  using restingOn_ticks [OF assms, of n dt] by (simp add: restingOn_def)

text \<open>
  The body of \<open>restWorld\<close> rests in this sense once its first tick has flagged it, and
  it is where it was ten ticks later.
\<close>

lemma restWorld_lands:
  "objects (update restWorld 0.125) 0 = objects landedWorld 0"
  "objects (update restWorld 0.125) 1 = objects landedWorld 1"
  by (simp_all add: restWorld_def landedWorld_def tick_defs)

theorem resting_body_stays_witness:
  "objects (update restWorld 0.125) 0 = objects landedWorld 0 \<and>
   objects (update restWorld 0.125) 1 = objects landedWorld 1 \<and>
   restingOn landedWorld 1 0 \<and>
   x (objects (ticks 10 0.125 landedWorld) 1) = 0 \<and>
   y (objects (ticks 10 0.125 landedWorld) 1) = 0 \<and>
   onGround (objects (ticks 10 0.125 landedWorld) 1)"
proof -
  have r: "restingOn landedWorld 1 0"
    by (simp add: restingOn_def landedWorld_def restWorld_def addCollider_def box_defs
          new_defs gate_def checkCollision_def Let_def)
  have p: "x (objects landedWorld 1) = 0" "y (objects landedWorld 1) = 0"
    by (simp_all add: landedWorld_def box_defs)
  from resting_body_stays [OF r, of 10 "0.125"] p r restWorld_lands
  show ?thesis by simp
qed

text \<open>
  Claim C8 as stated fails for a body that has just been registered on the edge of a
  surface. \<^verbatim>\<open>addCollider\<close> clears \<^verbatim>\<open>onGround\<close>, so the first tick lets the body of
  \<open>edgeWorld\<close> fall by \<open>0.0078125\<close>; the horizontal overlap of \<open>0.00390625\<close> is the smaller
  penetration, the body is pushed off the surface sideways, and it ends the tick at
  another \<open>x\<close> and not grounded.
\<close>

theorem resting_on_edge_counterexample:
  "1 \<in> set (dynamicColliders edgeWorld) \<and> 0 \<in> set (staticColliders edgeWorld) \<and>
   active (objects edgeWorld 1) \<and> active (objects edgeWorld 0) \<and>
   collisionMask (objects edgeWorld 1) AND collisionLayer (objects edgeWorld 0) \<noteq> 0 \<and>
   y (objects edgeWorld 1) + height (objects edgeWorld 1) = y (objects edgeWorld 0) \<and>
   x (objects edgeWorld 1) < x (objects edgeWorld 0) + width (objects edgeWorld 0) \<and>
   x (objects edgeWorld 1) + width (objects edgeWorld 1) > x (objects edgeWorld 0) \<and>
   velocityX (objects edgeWorld 1) = 0 \<and> velocityY (objects edgeWorld 1) = 0 \<and>
   x (objects (update edgeWorld 0.125) 1) \<noteq> x (objects edgeWorld 1) \<and>
   \<not> onGround (objects (update edgeWorld 0.125) 1)"
proof -
  have a: "x (objects (update edgeWorld 0.125) 1) = - 0.00390625"
    and b: "\<not> onGround (objects (update edgeWorld 0.125) 1)"
    by (simp_all add: edgeWorld_def tick_defs)
  have c: "x (objects edgeWorld 1) = 0"
    by (simp add: edgeWorld_def addCollider_def box_defs Let_def)
  have "1 \<in> set (dynamicColliders edgeWorld) \<and> 0 \<in> set (staticColliders edgeWorld) \<and>
   active (objects edgeWorld 1) \<and> active (objects edgeWorld 0) \<and>
   collisionMask (objects edgeWorld 1) AND collisionLayer (objects edgeWorld 0) \<noteq> 0 \<and>
   y (objects edgeWorld 1) + height (objects edgeWorld 1) = y (objects edgeWorld 0) \<and>
   x (objects edgeWorld 1) < x (objects edgeWorld 0) + width (objects edgeWorld 0) \<and>
   x (objects edgeWorld 1) + width (objects edgeWorld 1) > x (objects edgeWorld 0) \<and>
   velocityX (objects edgeWorld 1) = 0 \<and> velocityY (objects edgeWorld 1) = 0"
    by (simp add: edgeWorld_def addCollider_def box_defs new_defs Let_def)
  with a b c show ?thesis by simp
qed


subsection \<open>Terminal velocity\<close>
















subsection \<open>Collision callbacks\<close>

lemma countCalls_notify:
  "countCalls r g (calls (notify ph r' g')) =
     countCalls r g (calls ph) +
       (if r' = r \<and> g' = g \<and> onCollision (objects ph r') then 1 else 0)"
  by (simp add: notify_def countCalls_def)

lemma countCalls_collide:
  "countCalls r g (calls (collide ph c other)) \<le> countCalls r g (calls ph) +
     (if c = r \<and> other = g then 1 else 0) + (if other = r \<and> c = g then 1 else 0)"
proof (cases "checkCollision (objects ph c) (objects ph other)")
  case False
  then show ?thesis by (simp add: collide_def)
next
  case True
  define ph1 where "ph1 = ph\<lparr>objects := (objects ph)
              (c := resolveCollision (objects ph c) (objects ph other))\<rparr>"
  have c1: "calls ph1 = calls ph" by (simp add: ph1_def)
  have u: "collide ph c other = notify (notify ph1 c other) other c"
    using True by (simp add: collide_def Let_def ph1_def)
  have e1: "countCalls r g (calls (notify ph1 c other)) \<le>
              countCalls r g (calls ph) + (if c = r \<and> other = g then 1 else 0)"
    using countCalls_notify [of r g ph1 c other] by (simp add: c1)
  have e2: "countCalls r g (calls (notify (notify ph1 c other) other c)) \<le>
              countCalls r g (calls (notify ph1 c other)) +
                (if other = r \<and> c = g then 1 else 0)"
    using countCalls_notify [of r g "notify ph1 c other" other c] by simp
  from e1 e2 show ?thesis unfolding u by linarith
qed

lemma countCalls_collide_other:
  assumes "\<not> (c = r \<and> other = g)" and "\<not> (c = g \<and> other = r)"
  shows "countCalls r g (calls (collide ph c other)) = countCalls r g (calls ph)"
proof -
  have "countCalls r g (calls ph) \<le> countCalls r g (calls (collide ph c other))"
    by (simp add: collide_def Let_def notify_def countCalls_def)
  with countCalls_collide [of r g ph c other] assms show ?thesis
    by (auto split: if_splits)
qed

lemma countCalls_collide_le:
  assumes "r \<noteq> g"
  shows "countCalls r g (calls (collide ph c other)) \<le> countCalls r g (calls ph) + 1"
  using countCalls_collide [of r g ph c other] assms by (auto split: if_splits)

lemma countCalls_staticStep_other:
  assumes "\<not> (c = r \<and> s = g)" and "\<not> (c = g \<and> s = r)"
  shows "countCalls r g (calls (staticStep c s ph)) = countCalls r g (calls ph)"
  using countCalls_collide_other [OF assms, of ph] by (simp add: staticStep_def)

lemma countCalls_staticStep_le:
  assumes "r \<noteq> g"
  shows "countCalls r g (calls (staticStep c s ph)) \<le> countCalls r g (calls ph) + 1"
  using countCalls_collide_le [OF assms, of ph c s] by (simp add: staticStep_def)

lemma countCalls_dynamicStep_other:
  assumes "\<not> (c = r \<and> d = g)" and "\<not> (c = g \<and> d = r)"
  shows "countCalls r g (calls (dynamicStep c d ph)) = countCalls r g (calls ph)"
  using countCalls_collide_other [OF assms, of ph] by (simp add: dynamicStep_def)

lemma countCalls_dynamicStep_le:
  assumes "r \<noteq> g"
  shows "countCalls r g (calls (dynamicStep c d ph)) \<le> countCalls r g (calls ph) + 1"
  using countCalls_collide_le [OF assms, of ph c d] by (simp add: dynamicStep_def)

lemma countCalls_fold_inv:
  assumes inv: "\<And>x p. I p \<Longrightarrow> I (f x p)"
      and other: "\<And>x p. I p \<Longrightarrow> x \<in> S \<Longrightarrow> x \<noteq> x0 \<Longrightarrow>
                    countCalls r g (calls (f x p)) = countCalls r g (calls p)"
      and le: "\<And>p. I p \<Longrightarrow> countCalls r g (calls (f x0 p)) \<le> countCalls r g (calls p) + 1"
      and "distinct xs" and "set xs \<subseteq> S" and "I ph"
  shows "countCalls r g (calls (fold f xs ph)) \<le>
           countCalls r g (calls ph) + (if x0 \<in> set xs then 1 else 0)"
  using \<open>distinct xs\<close> \<open>set xs \<subseteq> S\<close> \<open>I ph\<close>
proof (induction xs arbitrary: ph)
  case Nil
  show ?case by simp
next
  case (Cons x xs)
  from Cons.prems have d: "distinct xs" and nx: "x \<notin> set xs" and sub: "set xs \<subseteq> S"
    and xS: "x \<in> S" by simp_all
  have I1: "I (f x ph)" using Cons.prems(3) by (rule inv)
  note ih = Cons.IH [OF d sub I1]
  show ?case
  proof (cases "x = x0")
    case True
    with nx have "x0 \<notin> set xs" by simp
    with ih le [OF Cons.prems(3)] True show ?thesis by simp
  next
    case False
    with ih other [OF Cons.prems(3) xS False] show ?thesis by simp
  qed
qed

lemma countCalls_fold_same:
  assumes inv: "\<And>x p. I p \<Longrightarrow> I (f x p)"
      and same: "\<And>x p. I p \<Longrightarrow> x \<in> S \<Longrightarrow>
                    countCalls r g (calls (f x p)) = countCalls r g (calls p)"
      and "set xs \<subseteq> S" and "I ph"
  shows "countCalls r g (calls (fold f xs ph)) = countCalls r g (calls ph)"
  using \<open>set xs \<subseteq> S\<close> \<open>I ph\<close>
proof (induction xs arbitrary: ph)
  case Nil
  show ?case by simp
next
  case (Cons x xs)
  from Cons.prems have sub: "set xs \<subseteq> S" and xS: "x \<in> S" by simp_all
  have I1: "I (f x ph)" using Cons.prems(2) by (rule inv)
  from Cons.IH [OF sub I1] same [OF Cons.prems(2) xS] show ?case by simp
qed

text \<open>The calls of one iteration of the outer loop are those of its two detection loops.\<close>

lemma calls_updateCollider:
  assumes "active (objects ph c)"
  shows "calls (updateCollider dt c ph) =
           calls (fold (dynamicStep c) (dynamicColliders ph)
                   (fold (staticStep c) (staticColliders ph)
                      (ph\<lparr>objects := (objects ph)(c := integrate ph dt (objects ph c))\<rparr>)))"
proof -
  define ph1 where "ph1 = ph\<lparr>objects := (objects ph)(c := integrate ph dt (objects ph c))\<rparr>"
  define ph2 where "ph2 = fold (staticStep c) (staticColliders ph1) ph1"
  define ph3 where "ph3 = fold (dynamicStep c) (dynamicColliders ph2) ph2"
  define ph4 where "ph4 = ph3\<lparr>objects := (objects ph3)(c := (objects ph3 c)\<lparr>onGround := False\<rparr>)\<rparr>"
  have l1: "staticColliders ph1 = staticColliders ph" "dynamicColliders ph1 = dynamicColliders ph"
    by (simp_all add: ph1_def)
  have "frame {c} ph1 ph2" unfolding ph2_def by (rule frame_fold) (rule frame_staticStep)
  then have l2: "dynamicColliders ph2 = dynamicColliders ph" using l1 by (simp add: frame_def)
  have "updateCollider dt c ph =
           (if groundScan ph4 c (staticColliders ph4)
            then ph4\<lparr>objects := (objects ph4)(c := (objects ph4 c)\<lparr>onGround := True\<rparr>)\<rparr>
            else ph4)"
    using assms ph1_def ph2_def ph3_def ph4_def by (rule updateCollider_unfold)
  then have "calls (updateCollider dt c ph) = calls ph3" by (simp add: ph4_def)
  moreover have "ph3 = fold (dynamicStep c) (dynamicColliders ph) ph2"
    by (simp add: ph3_def l2)
  moreover have "ph2 = fold (staticStep c) (staticColliders ph) ph1"
    by (simp add: ph2_def l1)
  ultimately show ?thesis unfolding ph1_def by simp
qed

text \<open>An iteration for an object outside the pair adds no call of the pair.\<close>

lemma countCalls_updateCollider_other:
  assumes "c \<noteq> r" and "c \<noteq> g"
  shows "countCalls r g (calls (updateCollider dt c ph)) = countCalls r g (calls ph)"
proof (cases "active (objects ph c)")
  case False
  then show ?thesis by (simp add: updateCollider_def)
next
  case True
  define ph1 where "ph1 = ph\<lparr>objects := (objects ph)(c := integrate ph dt (objects ph c))\<rparr>"
  have s: "countCalls r g (calls (fold (staticStep c) ss p)) = countCalls r g (calls p)" for ss p
    by (rule countCalls_fold_same [where I = "\<lambda>p. True" and S = UNIV])
       (simp_all add: countCalls_staticStep_other assms)
  have d: "countCalls r g (calls (fold (dynamicStep c) ds p)) = countCalls r g (calls p)" for ds p
    by (rule countCalls_fold_same [where I = "\<lambda>p. True" and S = UNIV])
       (simp_all add: countCalls_dynamicStep_other assms)
  show ?thesis
    unfolding calls_updateCollider [OF True] by (simp add: s d)
qed

text \<open>
  The iteration for \<open>c\<close> adds at most one call of a pair of \<open>c\<close> and \<open>b\<close>, in either
  direction, when \<open>b\<close> is not twice in the arrays.
\<close>

lemma countCalls_updateCollider_le:
  assumes rg: "(r = c \<and> g = b) \<or> (r = b \<and> g = c)" and ne: "c \<noteq> b"
      and ds: "distinct (staticColliders ph)" and dd: "distinct (dynamicColliders ph)"
      and dj: "set (staticColliders ph) \<inter> set (dynamicColliders ph) = {}"
  shows "countCalls r g (calls (updateCollider dt c ph)) \<le> countCalls r g (calls ph) + 1"
proof (cases "active (objects ph c)")
  case False
  then show ?thesis by (simp add: updateCollider_def)
next
  case True
  define ph1 where "ph1 = ph\<lparr>objects := (objects ph)(c := integrate ph dt (objects ph c))\<rparr>"
  define ph2 where "ph2 = fold (staticStep c) (staticColliders ph) ph1"
  have c1: "calls ph1 = calls ph" by (simp add: ph1_def)
  from rg ne have rne: "r \<noteq> g" by auto
  have so: "countCalls r g (calls (staticStep c s p)) = countCalls r g (calls p)"
    if "s \<noteq> b" for s p
    using that rg ne by (intro countCalls_staticStep_other) auto
  have do: "countCalls r g (calls (dynamicStep c d p)) = countCalls r g (calls p)"
    if "d \<noteq> b" for d p
    using that rg ne by (intro countCalls_dynamicStep_other) auto
  have s: "countCalls r g (calls ph2) \<le>
             countCalls r g (calls ph1) + (if b \<in> set (staticColliders ph) then 1 else 0)"
    unfolding ph2_def
  proof (rule countCalls_fold_inv [where I = "\<lambda>p. True" and S = UNIV])
    show "countCalls r g (calls (staticStep c b p)) \<le> countCalls r g (calls p) + 1" for p
      by (rule countCalls_staticStep_le [OF rne])
  qed (simp_all add: so ds)
  have d: "countCalls r g (calls (fold (dynamicStep c) (dynamicColliders ph) ph2)) \<le>
             countCalls r g (calls ph2) + (if b \<in> set (dynamicColliders ph) then 1 else 0)"
  proof (rule countCalls_fold_inv [where I = "\<lambda>p. True" and S = UNIV])
    show "countCalls r g (calls (dynamicStep c b p)) \<le> countCalls r g (calls p) + 1" for p
      by (rule countCalls_dynamicStep_le [OF rne])
  qed (simp_all add: do dd)
  have "\<not> (b \<in> set (staticColliders ph) \<and> b \<in> set (dynamicColliders ph))" using dj by auto
  with s d c1 show ?thesis
    unfolding calls_updateCollider [OF True] ph2_def [symmetric] ph1_def [symmetric]
    by (auto split: if_splits)
qed

text \<open>
  The iteration for \<open>b\<close> adds no call of a pair of \<open>a\<close> and \<open>b\<close> when the mask of \<open>b\<close>
  does not match the layer of \<open>a\<close>.
\<close>

lemma countCalls_updateCollider_blocked:
  assumes rg: "(r = a \<and> g = b) \<or> (r = b \<and> g = a)"
      and m: "collisionMask (objects ph b) AND collisionLayer (objects ph a) = 0"
  shows "countCalls r g (calls (updateCollider dt b ph)) = countCalls r g (calls ph)"
proof (cases "active (objects ph b)")
  case False
  then show ?thesis by (simp add: updateCollider_def)
next
  case True
  define I where "I p \<longleftrightarrow> collisionMask (objects p b) AND collisionLayer (objects p a) = 0" for p :: physics
  define ph1 where "ph1 = ph\<lparr>objects := (objects ph)(b := integrate ph dt (objects ph b))\<rparr>"
  have c1: "calls ph1 = calls ph" by (simp add: ph1_def)
  have "frame {b} ph ph1" by (simp add: ph1_def frame_def shape_integrate)
  then have "shape (objects ph1 h) = shape (objects ph h)" for h by (rule frame_shape)
  from this [of a] this [of b] m have I1: "I ph1" by (simp add: I_def shape_def)
  have Ifr: "I p'" if "I p" "frame {b} p p'" for p p'
    using that frame_shape [OF that(2), of a] frame_shape [OF that(2), of b]
    by (simp add: I_def shape_def)
  have Is: "I (staticStep b s p)" if "I p" for s p
    using that frame_staticStep by (rule Ifr)
  have Id: "I (dynamicStep b d p)" if "I p" for d p
    using that frame_dynamicStep by (rule Ifr)
  have ss: "countCalls r g (calls (staticStep b s p)) = countCalls r g (calls p)"
    if "I p" for s p
  proof (cases "s = a")
    case True
    with that show ?thesis by (simp add: staticStep_def I_def)
  next
    case False
    with rg show ?thesis by (intro countCalls_staticStep_other) auto
  qed
  have sd: "countCalls r g (calls (dynamicStep b d p)) = countCalls r g (calls p)"
    if "I p" for d p
  proof (cases "d = a")
    case True
    with that show ?thesis by (simp add: dynamicStep_def I_def)
  next
    case False
    with rg show ?thesis by (intro countCalls_dynamicStep_other) auto
  qed
  define ph2 where "ph2 = fold (staticStep b) (staticColliders ph) ph1"
  have I2: "I ph2" unfolding ph2_def using I1 Is by (rule fold_invariant)
  have e2: "countCalls r g (calls ph2) = countCalls r g (calls ph1)"
    unfolding ph2_def
    by (rule countCalls_fold_same [where I = I and S = UNIV]) (simp_all add: Is ss I1)
  have e3: "countCalls r g (calls (fold (dynamicStep b) (dynamicColliders ph) ph2)) =
            countCalls r g (calls ph2)"
    by (rule countCalls_fold_same [where I = I and S = UNIV]) (simp_all add: Id sd I2)
  show ?thesis
    unfolding calls_updateCollider [OF True] ph1_def [symmetric] ph2_def [symmetric]
    using e2 e3 c1 by simp
qed

lemma countCalls_update_le:
  assumes ne: "a \<noteq> b"
      and ds: "distinct (staticColliders ph)" and dd: "distinct (dynamicColliders ph)"
      and dj: "set (staticColliders ph) \<inter> set (dynamicColliders ph) = {}"
      and blk: "b \<notin> set (dynamicColliders ph) \<or>
                collisionMask (objects ph b) AND collisionLayer (objects ph a) = 0"
      and rg: "(r = a \<and> g = b) \<or> (r = b \<and> g = a)"
  shows "countCalls r g (calls (update ph dt)) \<le> countCalls r g (calls ph) + 1"
proof -
  have step: "frame UNIV ph (updateCollider dt c p)" if "frame UNIV ph p" for c p
  proof -
    have "frame UNIV p (updateCollider dt c p)"
      using frame_updateCollider [of c p dt] by (rule frame_mono) simp
    with that show ?thesis by (rule frame_trans)
  qed
  have "countCalls r g (calls (fold (updateCollider dt) (dynamicColliders ph) ph)) \<le>
          countCalls r g (calls ph) + (if a \<in> set (dynamicColliders ph) then 1 else 0)"
  proof (rule countCalls_fold_inv [where I = "frame UNIV ph" and S = "set (dynamicColliders ph)"])
    show "frame UNIV ph ph" by (rule frame_refl)
    show "distinct (dynamicColliders ph)" by (rule dd)
    show "set (dynamicColliders ph) \<subseteq> set (dynamicColliders ph)" by simp
    show "frame UNIV ph (updateCollider dt c p)" if "frame UNIV ph p" for c p
      using that by (rule step)
    show "countCalls r g (calls (updateCollider dt a p)) \<le> countCalls r g (calls p) + 1"
      if fr: "frame UNIV ph p" for p
    proof (rule countCalls_updateCollider_le [where b = b])
      show "(r = a \<and> g = b) \<or> (r = b \<and> g = a)" by (rule rg)
      show "a \<noteq> b" by (rule ne)
      show "distinct (staticColliders p)" using ds frame_lists [OF fr] by simp
      show "distinct (dynamicColliders p)" using dd frame_lists [OF fr] by simp
      show "set (staticColliders p) \<inter> set (dynamicColliders p) = {}"
        using dj frame_lists [OF fr] by simp
    qed
    show "countCalls r g (calls (updateCollider dt c p)) = countCalls r g (calls p)"
      if fr: "frame UNIV ph p" and cin: "c \<in> set (dynamicColliders ph)" and ca: "c \<noteq> a"
      for c p
    proof (cases "c = b")
      case True
      with cin blk
      have "collisionMask (objects ph b) AND collisionLayer (objects ph a) = 0" by simp
      with frame_shape [OF fr, of a] frame_shape [OF fr, of b]
      have "collisionMask (objects p b) AND collisionLayer (objects p a) = 0"
        by (simp add: shape_def)
      with rg show ?thesis unfolding True by (rule countCalls_updateCollider_blocked)
    next
      case False
      with ca rg show ?thesis by (intro countCalls_updateCollider_other) auto
    qed
  qed
  then show ?thesis by (simp add: update_def split: if_splits)
qed

lemma corrected_upd: "corrected (objs(c := X)) c A bs = corrected objs c A bs"
  by (induction bs arbitrary: A) simp_all

lemma detections_upd: "detections (objs(c := X)) c A bs = detections objs c A bs"
  by (induction bs arbitrary: A) simp_all

lemma staticStep_dynamicStep: "b \<noteq> c \<Longrightarrow> staticStep c b p = dynamicStep c b p"
  by (simp add: staticStep_def dynamicStep_def)

lemma fold_staticStep_dynamicStep:
  "c \<notin> set bs \<Longrightarrow> fold (staticStep c) bs p = fold (dynamicStep c) bs p"
  by (induction bs arbitrary: p) (auto simp: staticStep_dynamicStep)

lemma dynamicStep_spec:
  "dynamicStep c b p =
     (if b \<noteq> c \<and> gate (objects p c) (objects p b) \<and> checkCollision (objects p c) (objects p b)
      then p\<lparr>objects := (objects p)(c := resolveCollision (objects p c) (objects p b)),
             calls := calls p @
               callbacksOf (c, b, resolveCollision (objects p c) (objects p b), objects p b)\<rparr>
      else p)"
proof (cases "b \<noteq> c \<and> gate (objects p c) (objects p b) \<and>
              checkCollision (objects p c) (objects p b)")
  case False
  then show ?thesis by (auto simp: dynamicStep_def gate_def collide_def)
next
  case True
  then have bc: "b \<noteq> c" and cc: "checkCollision (objects p c) (objects p b)" by simp_all
  from True have d: "dynamicStep c b p = collide p c b"
    by (auto simp: dynamicStep_def gate_def)
  note o = collide_detected(1) [OF cc]
  note k = collide_detected(2) [OF cc]
  have oc: "objects (collide p c b) c = resolveCollision (objects p c) (objects p b)"
    and ob: "objects (collide p c b) b = objects p b"
    using bc by (simp_all add: o)
  have rest: "gravity (collide p c b) = gravity p" "friction (collide p c b) = friction p"
    "terminalVelocity (collide p c b) = terminalVelocity p"
    "colliders (collide p c b) = colliders p"
    "staticColliders (collide p c b) = staticColliders p"
    "dynamicColliders (collide p c b) = dynamicColliders p"
    using cc by (simp_all add: collide_def Let_def notify_fields)
  have "collide p c b =
        p\<lparr>objects := (objects p)(c := resolveCollision (objects p c) (objects p b)),
          calls := calls p @
               callbacksOf (c, b, resolveCollision (objects p c) (objects p b), objects p b)\<rparr>"
    by (rule physics.equality) (simp_all add: rest o k [unfolded oc ob])
  with d True show ?thesis by simp
qed

lemma fold_dynamicStep_spec:
  "fold (dynamicStep c) bs p =
     p\<lparr>objects := (objects p)(c := corrected (objects p) c (objects p c) bs),
       calls := calls p @ concat (map callbacksOf (detections (objects p) c (objects p c) bs))\<rparr>"
proof (induction bs arbitrary: p)
  case Nil
  show ?case by simp
next
  case (Cons b bs)
  show ?case
  proof (cases "b \<noteq> c \<and> gate (objects p c) (objects p b) \<and>
                checkCollision (objects p c) (objects p b)")
    case False
    have d: "dynamicStep c b p = p"
      unfolding dynamicStep_spec [of c b p] using False by (rule if_not_P)
    have c1: "corrected (objects p) c (objects p c) (b # bs) =
              corrected (objects p) c (objects p c) bs"
      unfolding corrected.simps using False by (rule if_not_P)
    have c2: "detections (objects p) c (objects p c) (b # bs) =
              detections (objects p) c (objects p c) bs"
      unfolding detections.simps using False by (rule if_not_P)
    show ?thesis unfolding c1 c2 using Cons.IH [of p] d by simp
  next
    case True
    define A' where "A' = resolveCollision (objects p c) (objects p b)"
    define p' where "p' = p\<lparr>objects := (objects p)(c := A'),
             calls := calls p @ callbacksOf (c, b, A', objects p b)\<rparr>"
    have d: "dynamicStep c b p = p'"
      unfolding dynamicStep_spec [of c b p] p'_def A'_def using True by (rule if_P)
    have o: "objects p' = (objects p)(c := A')" "objects p' c = A'"
      "calls p' = calls p @ callbacksOf (c, b, A', objects p b)"
      by (simp_all add: p'_def)
    have "fold (dynamicStep c) (b # bs) p = fold (dynamicStep c) bs p'" by (simp add: d)
    also have "\<dots> = p'\<lparr>objects := (objects p')(c := corrected (objects p') c (objects p' c) bs),
       calls := calls p' @
         concat (map callbacksOf (detections (objects p') c (objects p' c) bs))\<rparr>"
      by (rule Cons.IH)
    also have "\<dots> = p\<lparr>objects := (objects p)(c := corrected (objects p) c A' bs),
       calls := calls p @ callbacksOf (c, b, A', objects p b) @
         concat (map callbacksOf (detections (objects p) c A' bs))\<rparr>"
    proof -
      have e1: "(objects p')(c := corrected (objects p') c (objects p' c) bs) =
                (objects p)(c := corrected (objects p) c A' bs)"
        by (simp add: o corrected_upd)
      have e2: "calls p' @
                  concat (map callbacksOf (detections (objects p') c (objects p' c) bs)) =
                calls p @ callbacksOf (c, b, A', objects p b) @
                  concat (map callbacksOf (detections (objects p) c A' bs))"
        by (simp add: o detections_upd del: callbacksOf.simps)
      show ?thesis unfolding e1 e2 by (simp add: p'_def del: callbacksOf.simps)
    qed
    finally have f: "fold (dynamicStep c) (b # bs) p =
       p\<lparr>objects := (objects p)(c := corrected (objects p) c A' bs),
       calls := calls p @ callbacksOf (c, b, A', objects p b) @
         concat (map callbacksOf (detections (objects p) c A' bs))\<rparr>" .
    have c1: "corrected (objects p) c (objects p c) (b # bs) = corrected (objects p) c A' bs"
      unfolding corrected.simps A'_def using True by (rule if_P)
    have c2: "detections (objects p) c (objects p c) (b # bs) =
              (c, b, A', objects p b) # detections (objects p) c A' bs"
      unfolding detections.simps A'_def using True by (rule if_P)
    show ?thesis unfolding c1 c2 f by (simp only: list.map concat.simps append_assoc)
  qed
qed

lemma updateCollider_specPass:
  assumes nc: "c \<notin> set (staticColliders ph)"
  shows "updateCollider dt c ph = specPass dt c ph"
proof (cases "active (objects ph c)")
  case False
  then show ?thesis by (simp add: updateCollider_def specPass_def)
next
  case True
  define A1 where "A1 = integrate ph dt (objects ph c)"
  define bs where "bs = staticColliders ph @ dynamicColliders ph"
  define A where "A = corrected (objects ph) c A1 bs"
  define evs where "evs = concat (map callbacksOf (detections (objects ph) c A1 bs))"
  define g where "g \<longleftrightarrow> (\<exists>s \<in> set (staticColliders ph).
                       gate A (objects ph s) \<and> checkGrounded A (objects ph s))"
  define ph1 where "ph1 = ph\<lparr>objects := (objects ph)(c := integrate ph dt (objects ph c))\<rparr>"
  define ph2 where "ph2 = fold (staticStep c) (staticColliders ph1) ph1"
  define ph3 where "ph3 = fold (dynamicStep c) (dynamicColliders ph2) ph2"
  define ph4 where "ph4 = ph3\<lparr>objects := (objects ph3)(c := (objects ph3 c)\<lparr>onGround := False\<rparr>)\<rparr>"
  have u: "updateCollider dt c ph =
           (if groundScan ph4 c (staticColliders ph4)
            then ph4\<lparr>objects := (objects ph4)(c := (objects ph4 c)\<lparr>onGround := True\<rparr>)\<rparr>
            else ph4)"
    using True ph1_def ph2_def ph3_def ph4_def by (rule updateCollider_unfold)
  have l1: "staticColliders ph1 = staticColliders ph" "dynamicColliders ph1 = dynamicColliders ph"
    "objects ph1 = (objects ph)(c := A1)" "objects ph1 c = A1" "calls ph1 = calls ph"
    by (simp_all add: ph1_def A1_def)
  have "frame {c} ph1 ph2" unfolding ph2_def by (rule frame_fold) (rule frame_staticStep)
  then have l2: "dynamicColliders ph2 = dynamicColliders ph" using l1 by (simp add: frame_def)
  have e2: "ph2 = fold (dynamicStep c) (staticColliders ph) ph1"
    unfolding ph2_def l1 using nc by (rule fold_staticStep_dynamicStep)
  have "ph3 = fold (dynamicStep c) (dynamicColliders ph) ph2"
    unfolding ph3_def l2 by (rule refl)
  then have "ph3 = fold (dynamicStep c) bs ph1"
    unfolding e2 bs_def by (simp only: fold_append comp_apply)
  then have p3: "ph3 = ph1\<lparr>objects := (objects ph)(c := A), calls := calls ph @ evs\<rparr>"
    unfolding fold_dynamicStep_spec [of c bs ph1]
    by (simp add: l1 corrected_upd detections_upd A_def evs_def del: callbacksOf.simps)
  have o3: "objects ph3 = (objects ph)(c := A)" "calls ph3 = calls ph @ evs"
    "staticColliders ph3 = staticColliders ph"
    by (simp_all add: p3 l1)
  have gs: "groundScan ph4 c (staticColliders ph4) = g"
  proof -
    have "staticColliders ph4 = staticColliders ph" by (simp add: ph4_def o3)
    moreover have "objects ph4 c = A\<lparr>onGround := False\<rparr>" by (simp add: ph4_def o3)
    moreover have "objects ph4 s = objects ph s" if "s \<in> set (staticColliders ph)" for s
      using that nc by (auto simp: ph4_def o3)
    ultimately show ?thesis
      by (simp add: groundScan_iff g_def gate_onGround checkGrounded_onGround)
  qed
  have r: "updateCollider dt c ph =
             ph\<lparr>objects := (objects ph)(c := A\<lparr>onGround := g\<rparr>), calls := calls ph @ evs\<rparr>"
  proof (rule physics.equality)
    show "objects (updateCollider dt c ph) =
          objects (ph\<lparr>objects := (objects ph)(c := A\<lparr>onGround := g\<rparr>), calls := calls ph @ evs\<rparr>)"
      unfolding u gs by (cases g) (simp_all add: ph4_def o3)
  qed (simp_all add: u gs ph4_def p3 ph1_def)
  have "specPass dt c ph =
          ph\<lparr>objects := (objects ph)(c := A\<lparr>onGround := g\<rparr>), calls := calls ph @ evs\<rparr>"
    using True
    by (simp add: specPass_def Let_def A_def A1_def bs_def evs_def g_def del: callbacksOf.simps)
  with r show ?thesis by simp
qed

lemma specPass_lists:
  "staticColliders (specPass dt c ph) = staticColliders ph"
  "dynamicColliders (specPass dt c ph) = dynamicColliders ph"
  by (simp_all add: specPass_def Let_def)

lemma fold_updateCollider_specPass:
  assumes "set cs \<inter> set (staticColliders ph) = {}"
  shows "fold (updateCollider dt) cs ph = fold (specPass dt) cs ph"
  using assms
proof (induction cs arbitrary: ph)
  case Nil
  show ?case by simp
next
  case (Cons c cs)
  from Cons.prems have nc: "c \<notin> set (staticColliders ph)" by simp
  have e: "updateCollider dt c ph = specPass dt c ph" using nc by (rule updateCollider_specPass)
  have "set cs \<inter> set (staticColliders (specPass dt c ph)) = {}"
    using Cons.prems by (simp add: specPass_lists)
  from Cons.IH [OF this] show ?case by (simp add: e)
qed

lemma update_specPass:
  assumes "set (staticColliders ph) \<inter> set (dynamicColliders ph) = {}"
  shows "update ph dt = fold (specPass dt) (dynamicColliders ph) ph"
  unfolding update_def using assms by (intro fold_updateCollider_specPass) auto

lemma detections_partners:
  "set (map (\<lambda>d. fst (snd d)) (detections objs c A bs)) \<subseteq> set bs - {c}"
  by (induction bs arbitrary: A) auto

lemma onCollision_resolveCollision: "onCollision (resolveCollision A B) = onCollision A"
  using shape_resolveCollision [of A B] by (simp add: shape_def)

lemma countCalls_append:
  "countCalls r g (xs @ ys) = countCalls r g xs + countCalls r g ys"
  by (simp add: countCalls_def)

lemma countCalls_Nil: "countCalls r g [] = 0"
  by (simp add: countCalls_def)

lemma countCalls_single:
  "countCalls r g [OnCollision c b A B] = (if c = r \<and> b = g then 1 else 0)"
  by (simp add: countCalls_def)

lemma countCalls_if_single:
  "countCalls r g (if P then [OnCollision c b A B] else []) =
     (if c = r \<and> b = g \<and> P then 1 else 0)"
proof (cases P)
  case True
  then show ?thesis by (simp only: if_True countCalls_single simp_thms)
next
  case False
  then show ?thesis by (simp only: if_False countCalls_Nil simp_thms)
qed

lemma countCalls_callbacksOf:
  "countCalls r g (callbacksOf (c, b, A, B)) =
     (if c = r \<and> b = g \<and> onCollision A then 1 else 0) +
     (if b = r \<and> c = g \<and> onCollision B then 1 else 0)"
  unfolding callbacksOf.simps countCalls_append countCalls_if_single by (rule refl)

lemma countCalls_detections_none:
  assumes "b \<notin> set bs" and "b \<noteq> c"
  shows "countCalls c b (concat (map callbacksOf (detections objs c A bs))) = 0"
    and "countCalls b c (concat (map callbacksOf (detections objs c A bs))) = 0"
  using assms
  by (induction bs arbitrary: A)
     (auto simp: countCalls_Nil countCalls_append countCalls_callbacksOf
           simp del: callbacksOf.simps)

lemma countCalls_detections_querying:
  assumes "distinct bs" and "b \<noteq> c"
  shows "countCalls c b (concat (map callbacksOf (detections objs c A bs))) =
           (if onCollision A \<and> b \<in> set (map (\<lambda>d. fst (snd d)) (detections objs c A bs))
            then 1 else 0)"
  using assms
proof (induction bs arbitrary: A)
  case Nil
  show ?case by (simp add: countCalls_Nil)
next
  case (Cons x bs)
  define A' where "A' = resolveCollision A (objs x)"
  have oc: "onCollision A' = onCollision A" by (simp add: A'_def onCollision_resolveCollision)
  from Cons.prems have d: "distinct bs" and nx: "x \<notin> set bs" and ne: "b \<noteq> c" by simp_all
  show ?case
  proof (cases "x \<noteq> c \<and> gate A (objs x) \<and> checkCollision A (objs x)")
    case False
    have e: "detections objs c A (x # bs) = detections objs c A bs"
      unfolding detections.simps using False by (rule if_not_P)
    show ?thesis unfolding e using d ne by (rule Cons.IH)
  next
    case True
    have e: "detections objs c A (x # bs) = (c, x, A', objs x) # detections objs c A' bs"
      unfolding detections.simps A'_def using True by (rule if_P)
    show ?thesis
    proof (cases "x = b")
      case xb: True
      with nx have "b \<notin> set bs" by simp
      from countCalls_detections_none(1) [OF this ne] xb ne oc show ?thesis
        unfolding e
        by (simp add: countCalls_append countCalls_callbacksOf del: callbacksOf.simps)
    next
      case xb: False
      from Cons.IH [OF d ne, of A'] xb ne True oc show ?thesis
        unfolding e
        by (simp add: countCalls_append countCalls_callbacksOf del: callbacksOf.simps)
    qed
  qed
qed

lemma countCalls_detections_other:
  assumes "distinct bs" and "b \<noteq> c"
  shows "countCalls b c (concat (map callbacksOf (detections objs c A bs))) =
           (if onCollision (objs b) \<and> b \<in> set (map (\<lambda>d. fst (snd d)) (detections objs c A bs))
            then 1 else 0)"
  using assms
proof (induction bs arbitrary: A)
  case Nil
  show ?case by (simp add: countCalls_Nil)
next
  case (Cons x bs)
  define A' where "A' = resolveCollision A (objs x)"
  from Cons.prems have d: "distinct bs" and nx: "x \<notin> set bs" and ne: "b \<noteq> c" by simp_all
  show ?case
  proof (cases "x \<noteq> c \<and> gate A (objs x) \<and> checkCollision A (objs x)")
    case False
    have e: "detections objs c A (x # bs) = detections objs c A bs"
      unfolding detections.simps using False by (rule if_not_P)
    show ?thesis unfolding e using d ne by (rule Cons.IH)
  next
    case True
    have e: "detections objs c A (x # bs) = (c, x, A', objs x) # detections objs c A' bs"
      unfolding detections.simps A'_def using True by (rule if_P)
    show ?thesis
    proof (cases "x = b")
      case xb: True
      with nx have "b \<notin> set bs" by simp
      from countCalls_detections_none(2) [OF this ne] xb ne show ?thesis
        unfolding e
        by (simp add: countCalls_append countCalls_callbacksOf del: callbacksOf.simps)
    next
      case xb: False
      from Cons.IH [OF d ne, of A'] xb ne True show ?thesis
        unfolding e
        by (simp add: countCalls_append countCalls_callbacksOf del: callbacksOf.simps)
    qed
  qed
qed

lemma onCollision_integrate: "onCollision (integrate ph dt A) = onCollision A"
  using shape_integrate [of ph dt A] by (simp add: shape_def)

lemma countCalls_updateCollider_exact:
  assumes nc: "c \<notin> set (staticColliders ph)"
      and ds: "distinct (staticColliders ph)" and dd: "distinct (dynamicColliders ph)"
      and dj: "set (staticColliders ph) \<inter> set (dynamicColliders ph) = {}"
      and ne: "b \<noteq> c"
  shows "countCalls c b (calls (updateCollider dt c ph)) =
           countCalls c b (calls ph) +
             (if onCollision (objects ph c) \<and> detected dt c b ph then 1 else 0)"
    and "countCalls b c (calls (updateCollider dt c ph)) =
           countCalls b c (calls ph) +
             (if onCollision (objects ph b) \<and> detected dt c b ph then 1 else 0)"
proof -
  have dbs: "distinct (staticColliders ph @ dynamicColliders ph)" using ds dd dj by auto
  note k = countCalls_detections_querying [OF dbs ne, of "objects ph" "integrate ph dt (objects ph c)"]
    countCalls_detections_other [OF dbs ne, of "objects ph" "integrate ph dt (objects ph c)"]
  have e: "updateCollider dt c ph = specPass dt c ph" using nc by (rule updateCollider_specPass)
  show "countCalls c b (calls (updateCollider dt c ph)) =
           countCalls c b (calls ph) +
             (if onCollision (objects ph c) \<and> detected dt c b ph then 1 else 0)"
  proof (cases "active (objects ph c)")
    case False
    then show ?thesis by (simp add: e specPass_def detected_def)
  next
    case True
    then show ?thesis unfolding e
      by (simp add: specPass_def Let_def countCalls_append k(1) detected_def
            onCollision_integrate del: callbacksOf.simps)
  qed
  show "countCalls b c (calls (updateCollider dt c ph)) =
           countCalls b c (calls ph) +
             (if onCollision (objects ph b) \<and> detected dt c b ph then 1 else 0)"
  proof (cases "active (objects ph c)")
    case False
    then show ?thesis by (simp add: e specPass_def detected_def)
  next
    case True
    then show ?thesis unfolding e
      by (simp add: specPass_def Let_def countCalls_append k(2) detected_def
            del: callbacksOf.simps)
  qed
qed

lemma frame_UNIV_updateCollider:
  assumes "frame UNIV ph p"
  shows "frame UNIV ph (updateCollider dt c p)"
proof -
  have "frame UNIV p (updateCollider dt c p)"
    using frame_updateCollider [of c p dt] by (rule frame_mono) simp
  with assms show ?thesis by (rule frame_trans)
qed

lemma countCalls_fold_updateCollider_others:
  assumes rg: "(r = a \<and> g = b) \<or> (r = b \<and> g = a)"
      and blk: "b \<notin> set (dynamicColliders ph) \<or>
                collisionMask (objects ph b) AND collisionLayer (objects ph a) = 0"
      and sub: "set cs \<subseteq> set (dynamicColliders ph) - {a}"
      and fr: "frame UNIV ph q"
  shows "countCalls r g (calls (fold (updateCollider dt) cs q)) = countCalls r g (calls q)"
proof (rule countCalls_fold_same [where I = "frame UNIV ph" and S = "set (dynamicColliders ph) - {a}"])
  show "frame UNIV ph q" by (rule fr)
  show "set cs \<subseteq> set (dynamicColliders ph) - {a}" by (rule sub)
  show "frame UNIV ph (updateCollider dt c p)" if "frame UNIV ph p" for c p
    using that by (rule frame_UNIV_updateCollider)
  show "countCalls r g (calls (updateCollider dt c p)) = countCalls r g (calls p)"
    if f: "frame UNIV ph p" and cin: "c \<in> set (dynamicColliders ph) - {a}" for c p
  proof (cases "c = b")
    case True
    with cin blk
    have "collisionMask (objects ph b) AND collisionLayer (objects ph a) = 0" by simp
    with frame_shape [OF f, of a] frame_shape [OF f, of b]
    have "collisionMask (objects p b) AND collisionLayer (objects p a) = 0"
      by (simp add: shape_def)
    with rg show ?thesis unfolding True by (rule countCalls_updateCollider_blocked)
  next
    case False
    with cin rg show ?thesis by (intro countCalls_updateCollider_other) auto
  qed
qed

lemma countCalls_update_exact:
  assumes ne: "a \<noteq> b"
      and ds: "distinct (staticColliders ph)" and dd: "distinct (dynamicColliders ph)"
      and dj: "set (staticColliders ph) \<inter> set (dynamicColliders ph) = {}"
      and blk: "b \<notin> set (dynamicColliders ph) \<or>
                collisionMask (objects ph b) AND collisionLayer (objects ph a) = 0"
      and sp: "dynamicColliders ph = pre @ a # post"
  shows "countCalls a b (calls (update ph dt)) =
           countCalls a b (calls ph) +
             (if onCollision (objects ph a) \<and> detected dt a b (fold (updateCollider dt) pre ph)
              then 1 else 0)"
    and "countCalls b a (calls (update ph dt)) =
           countCalls b a (calls ph) +
             (if onCollision (objects ph b) \<and> detected dt a b (fold (updateCollider dt) pre ph)
              then 1 else 0)"
proof -
  define p where "p = fold (updateCollider dt) pre ph"
  define q where "q = updateCollider dt a p"
  have u: "update ph dt = fold (updateCollider dt) post q"
    by (simp add: update_def sp p_def q_def)
  have fp: "frame UNIV ph p"
    unfolding p_def using frame_refl frame_UNIV_updateCollider by (rule fold_invariant)
  have fq: "frame UNIV ph q" unfolding q_def using fp by (rule frame_UNIV_updateCollider)
  from dd sp have pre: "set pre \<subseteq> set (dynamicColliders ph) - {a}"
    and post: "set post \<subseteq> set (dynamicColliders ph) - {a}" by auto
  have lp: "staticColliders p = staticColliders ph" "dynamicColliders p = dynamicColliders ph"
    using frame_lists [OF fp] by simp_all
  have na: "a \<notin> set (staticColliders p)" using dj sp lp by auto
  have dsp: "distinct (staticColliders p)" and ddp: "distinct (dynamicColliders p)"
    and djp: "set (staticColliders p) \<inter> set (dynamicColliders p) = {}"
    using ds dd dj lp by simp_all
  have sh: "onCollision (objects p h) = onCollision (objects ph h)" for h
    using frame_shape [OF fp, of h] by (simp add: shape_def)
  note ex = countCalls_updateCollider_exact [OF na dsp ddp djp ne [symmetric], of dt]
  have c1: "countCalls r g (calls p) = countCalls r g (calls ph)"
    if "(r = a \<and> g = b) \<or> (r = b \<and> g = a)" for r g
    unfolding p_def using that blk pre frame_refl
    by (rule countCalls_fold_updateCollider_others)
  have c2: "countCalls r g (calls (update ph dt)) = countCalls r g (calls q)"
    if "(r = a \<and> g = b) \<or> (r = b \<and> g = a)" for r g
    unfolding u using that blk post fq
    by (rule countCalls_fold_updateCollider_others)
  show "countCalls a b (calls (update ph dt)) =
           countCalls a b (calls ph) +
             (if onCollision (objects ph a) \<and> detected dt a b (fold (updateCollider dt) pre ph)
              then 1 else 0)"
    using c1 [of a b] c2 [of a b] ex(1) unfolding q_def [symmetric] p_def [symmetric] sh
    by simp
  show "countCalls b a (calls (update ph dt)) =
           countCalls b a (calls ph) +
             (if onCollision (objects ph b) \<and> detected dt a b (fold (updateCollider dt) pre ph)
              then 1 else 0)"
    using c1 [of b a] c2 [of b a] ex(2) unfolding q_def [symmetric] p_def [symmetric] sh
    by simp
qed

text \<open>
  Claim C5, amended. Provided no reference is in both partitions, a tick is the passes
  of the dynamic bodies in the order of their array, and the pass of an active body
  \<open>c\<close> is this: \<open>c\<close> is integrated; then, going through the static and then the
  dynamic array, each body \<open>b\<close> other than \<open>c\<close> that is active, is on a layer in the
  mask of \<open>c\<close> and overlaps \<open>c\<close> as corrected so far is a detection, which corrects
  \<open>c\<close> once and then calls the callback of \<open>c\<close> with \<open>b\<close> and the callback of \<open>b\<close>
  with \<open>c\<close>, in this order, both with the corrected fields in view; at last the
  grounded flag is set. So the calls of a tick are exactly the callbacks of its
  detections, after the correction of each. When moreover no reference is twice in a
  partition and \<open>b\<close> cannot detect \<open>a\<close>, because \<open>b\<close> is not dynamic or because the
  mask of \<open>b\<close> does not match the layer of \<open>a\<close>, the callbacks of the pair fire at
  most once in each direction in the tick; and if \<open>a\<close> is dynamic, the defined callback
  of each of the two fires exactly once when the pass of \<open>a\<close> detects \<open>b\<close> and not at
  all when it does not: one pass, from the side of the querying body. Nothing bounds
  by one the calls of a pair of dynamic bodies that can each detect the other.
\<close>

theorem collision_callbacks:
  "(set (staticColliders ph) \<inter> set (dynamicColliders ph) = {} \<longrightarrow>
      update ph dt = fold (specPass dt) (dynamicColliders ph) ph) \<and>
   (a \<noteq> b \<and> distinct (staticColliders ph) \<and> distinct (dynamicColliders ph) \<and>
    set (staticColliders ph) \<inter> set (dynamicColliders ph) = {} \<and>
    (b \<notin> set (dynamicColliders ph) \<or>
     collisionMask (objects ph b) AND collisionLayer (objects ph a) = 0) \<longrightarrow>
      countCalls a b (calls (update ph dt)) \<le> countCalls a b (calls ph) + 1 \<and>
      countCalls b a (calls (update ph dt)) \<le> countCalls b a (calls ph) + 1 \<and>
      (dynamicColliders ph = pre @ a # post \<longrightarrow>
         countCalls a b (calls (update ph dt)) =
           countCalls a b (calls ph) +
             (if onCollision (objects ph a) \<and>
                 detected dt a b (fold (updateCollider dt) pre ph)
              then 1 else 0) \<and>
         countCalls b a (calls (update ph dt)) =
           countCalls b a (calls ph) +
             (if onCollision (objects ph b) \<and>
                 detected dt a b (fold (updateCollider dt) pre ph)
              then 1 else 0)))"
proof -
  have 1: "update ph dt = fold (specPass dt) (dynamicColliders ph) ph"
    if "set (staticColliders ph) \<inter> set (dynamicColliders ph) = {}"
    using that by (rule update_specPass)
  have 2: "countCalls a b (calls (update ph dt)) \<le> countCalls a b (calls ph) + 1 \<and>
      countCalls b a (calls (update ph dt)) \<le> countCalls b a (calls ph) + 1 \<and>
      (dynamicColliders ph = pre @ a # post \<longrightarrow>
         countCalls a b (calls (update ph dt)) =
           countCalls a b (calls ph) +
             (if onCollision (objects ph a) \<and>
                 detected dt a b (fold (updateCollider dt) pre ph)
              then 1 else 0) \<and>
         countCalls b a (calls (update ph dt)) =
           countCalls b a (calls ph) +
             (if onCollision (objects ph b) \<and>
                 detected dt a b (fold (updateCollider dt) pre ph)
              then 1 else 0))"
    if h: "a \<noteq> b \<and> distinct (staticColliders ph) \<and> distinct (dynamicColliders ph) \<and>
      set (staticColliders ph) \<inter> set (dynamicColliders ph) = {} \<and>
      (b \<notin> set (dynamicColliders ph) \<or>
       collisionMask (objects ph b) AND collisionLayer (objects ph a) = 0)"
  proof -
    from h have ne: "a \<noteq> b" and ds: "distinct (staticColliders ph)"
      and dd: "distinct (dynamicColliders ph)"
      and dj: "set (staticColliders ph) \<inter> set (dynamicColliders ph) = {}"
      and blk: "b \<notin> set (dynamicColliders ph) \<or>
                collisionMask (objects ph b) AND collisionLayer (objects ph a) = 0"
      by simp_all
    have le1: "countCalls a b (calls (update ph dt)) \<le> countCalls a b (calls ph) + 1"
      using ne ds dd dj blk by (rule countCalls_update_le) simp
    have le2: "countCalls b a (calls (update ph dt)) \<le> countCalls b a (calls ph) + 1"
      using ne ds dd dj blk by (rule countCalls_update_le) simp
    have ex: "countCalls a b (calls (update ph dt)) =
           countCalls a b (calls ph) +
             (if onCollision (objects ph a) \<and>
                 detected dt a b (fold (updateCollider dt) pre ph)
              then 1 else 0) \<and>
         countCalls b a (calls (update ph dt)) =
           countCalls b a (calls ph) +
             (if onCollision (objects ph b) \<and>
                 detected dt a b (fold (updateCollider dt) pre ph)
              then 1 else 0)"
      if sp: "dynamicColliders ph = pre @ a # post"
      using countCalls_update_exact [OF ne ds dd dj blk sp, of dt] by (rule conjI)
    from le1 le2 ex show ?thesis by blast
  qed
  from 1 2 show ?thesis by blast
qed

text \<open>
  In \<open>oneWayWorld\<close> body 0 sees body 1 and body 1 does not see body 0. The two overlap
  when the tick begins and again when body 1 has moved. The pass of body 0 detects
  body 1, moves body 0 from \<open>x = 0\<close> to \<open>x = -2\<close> and calls the two callbacks, which
  see body 0 there; the pass of body 1 detects nothing; in the whole tick each callback
  is called once.
\<close>

theorem collision_callbacks_witness:
  "set (staticColliders oneWayWorld) \<inter> set (dynamicColliders oneWayWorld) = {} \<and>
   distinct (staticColliders oneWayWorld) \<and> distinct (dynamicColliders oneWayWorld) \<and>
   dynamicColliders oneWayWorld = [] @ 0 # [1] \<and>
   collisionMask (objects oneWayWorld 0) AND collisionLayer (objects oneWayWorld 1) \<noteq> 0 \<and>
   collisionMask (objects oneWayWorld 1) AND collisionLayer (objects oneWayWorld 0) = 0 \<and>
   onCollision (objects oneWayWorld 0) \<and> onCollision (objects oneWayWorld 1) \<and>
   detected 0.125 0 1 oneWayWorld \<and>
   calls oneWayWorld = [] \<and>
   update oneWayWorld 0.125 = fold (specPass 0.125) [0, 1] oneWayWorld \<and>
   countCalls 0 1 (calls (update oneWayWorld 0.125)) = 1 \<and>
   countCalls 1 0 (calls (update oneWayWorld 0.125)) = 1 \<and>
   map (\<lambda>e. (receiver e, argument e, x (receiverSeen e), x (argumentSeen e)))
     (calls (update oneWayWorld 0.125)) = [(0, 1, - 2, 30), (1, 0, 30, - 2)]"
proof -
  have h1: "set (staticColliders oneWayWorld) \<inter> set (dynamicColliders oneWayWorld) = {}"
    and h2: "distinct (staticColliders oneWayWorld)"
    and h3: "distinct (dynamicColliders oneWayWorld)"
    and h4: "dynamicColliders oneWayWorld = [] @ 0 # [1]"
    and h5: "collisionMask (objects oneWayWorld 0) AND collisionLayer (objects oneWayWorld 1) \<noteq> 0"
    and h6: "collisionMask (objects oneWayWorld 1) AND collisionLayer (objects oneWayWorld 0) = 0"
    and h7: "onCollision (objects oneWayWorld 0)" "onCollision (objects oneWayWorld 1)"
    and h8: "calls oneWayWorld = []"
    by (simp_all add: oneWayWorld_def addCollider_def box_defs new_defs Let_def)
  have h9: "detected 0.125 0 1 oneWayWorld"
    by (simp add: detected_def gate_def oneWayWorld_def tick_defs)
  have h10: "map (\<lambda>e. (receiver e, argument e, x (receiverSeen e), x (argumentSeen e)))
     (calls (update oneWayWorld 0.125)) = [(0, 1, - 2, 30), (1, 0, 30, - 2)]"
    by (simp add: oneWayWorld_def tick_defs)
  have h: "(0 :: nat) \<noteq> 1 \<and>
     distinct (staticColliders oneWayWorld) \<and> distinct (dynamicColliders oneWayWorld) \<and>
     set (staticColliders oneWayWorld) \<inter> set (dynamicColliders oneWayWorld) = {} \<and>
     (1 \<notin> set (dynamicColliders oneWayWorld) \<or>
      collisionMask (objects oneWayWorld 1) AND collisionLayer (objects oneWayWorld 0) = 0)"
    using h1 h2 h3 h6 by simp
  note t = collision_callbacks [where ph = oneWayWorld and dt = "0.125" and a = 0 and b = 1
      and pre = "[]" and post = "[1]"]
  from t [THEN conjunct1] h1 h4
  have c1: "update oneWayWorld 0.125 = fold (specPass 0.125) [0, 1] oneWayWorld"
    by simp
  note e = t [THEN conjunct2, THEN mp, OF h, THEN conjunct2, THEN conjunct2, THEN mp, OF h4]
  from e [THEN conjunct1] h7 h8 h9
  have c2: "countCalls 0 1 (calls (update oneWayWorld 0.125)) = 1"
    by (simp add: countCalls_def)
  from e [THEN conjunct2] h7 h8 h9
  have c3: "countCalls 1 0 (calls (update oneWayWorld 0.125)) = 1"
    by (simp add: countCalls_def)
  from h1 h2 h3 h4 h5 h6 h7 h8 h9 h10 c1 c2 c3 show ?thesis by simp
qed

text \<open>
  Claim C5 as stated fails for two dynamic bodies that can each detect the other. In
  \<open>bumpWorld\<close> the iteration of body 0 finds the overlap, corrects body 0 and calls
  both callbacks; then body 1 moves into body 0, its own iteration finds the overlap
  again, corrects body 1 and calls both callbacks a second time.
\<close>

theorem collision_callbacks_twice_counterexample:
  "dynamicColliders bumpWorld = [0, 1] \<and>
   collisionMask (objects bumpWorld 0) AND collisionLayer (objects bumpWorld 1) \<noteq> 0 \<and>
   collisionMask (objects bumpWorld 1) AND collisionLayer (objects bumpWorld 0) \<noteq> 0 \<and>
   calls bumpWorld = [] \<and>
   countCalls 0 1 (calls (update bumpWorld 0.125)) = 2 \<and>
   countCalls 1 0 (calls (update bumpWorld 0.125)) = 2"
proof -
  have "dynamicColliders bumpWorld = [0, 1] \<and>
   collisionMask (objects bumpWorld 0) AND collisionLayer (objects bumpWorld 1) \<noteq> 0 \<and>
   collisionMask (objects bumpWorld 1) AND collisionLayer (objects bumpWorld 0) \<noteq> 0 \<and>
   calls bumpWorld = []"
    by (simp add: bumpWorld_def addCollider_def box_defs new_defs Let_def)
  moreover have "countCalls 0 1 (calls (update bumpWorld 0.125)) = 2"
    "countCalls 1 0 (calls (update bumpWorld 0.125)) = 2"
    by (simp_all add: bumpWorld_def tick_defs countCalls_def)
  ultimately show ?thesis by simp
qed

subsection \<open>Registration and removal\<close>

lemma addCollider_colliders: "colliders (addCollider ph h c) = colliders ph @ [h]"
  by (simp add: addCollider_def Let_def)

lemma addCollider_partition:
  "h \<in> set (staticColliders (addCollider ph h c)) \<or>
   h \<in> set (dynamicColliders (addCollider ph h c))"
  by (simp add: addCollider_def Let_def)

lemma wellFormed_addCollider:
  assumes "wellFormed ph" and "h \<notin> set (colliders ph)"
  shows "wellFormed (addCollider ph h c)"
  using assms by (auto simp: wellFormed_def addCollider_def Let_def)

lemma removeCollider_colliders: "colliders (removeCollider ph h) = remove1 h (colliders ph)"
  by (simp add: removeCollider_def Let_def)

lemma wellFormed_removeCollider:
  assumes "wellFormed ph"
  shows "wellFormed (removeCollider ph h)"
  using assms by (auto simp: wellFormed_def removeCollider_def Let_def)

lemma removeCollider_gone:
  assumes "wellFormed ph"
  shows "h \<notin> set (colliders (removeCollider ph h))"
    and "h \<notin> set (staticColliders (removeCollider ph h))"
    and "h \<notin> set (dynamicColliders (removeCollider ph h))"
  using assms by (auto simp: wellFormed_def removeCollider_def Let_def)

lemma wellFormed_partition:
  assumes "wellFormed ph"
  shows "set (staticColliders ph) \<union> set (dynamicColliders ph) = set (colliders ph)"
    and "set (staticColliders ph) \<inter> set (dynamicColliders ph) = {}"
    and "length (staticColliders ph) + length (dynamicColliders ph) = length (colliders ph)"
proof -
  show u: "set (staticColliders ph) \<union> set (dynamicColliders ph) = set (colliders ph)"
    using assms by (auto simp: wellFormed_def)
  show i: "set (staticColliders ph) \<inter> set (dynamicColliders ph) = {}"
    using assms by (auto simp: wellFormed_def)
  have ds: "distinct (staticColliders ph)" and dd: "distinct (dynamicColliders ph)"
    and dc: "distinct (colliders ph)"
    using assms by (simp_all add: wellFormed_def)
  have "length (staticColliders ph) + length (dynamicColliders ph) =
        card (set (staticColliders ph)) + card (set (dynamicColliders ph))"
    using distinct_card [OF ds] distinct_card [OF dd] by simp
  also have "\<dots> = card (set (staticColliders ph) \<union> set (dynamicColliders ph))"
    using i by (simp add: card_Un_disjoint)
  also have "\<dots> = length (colliders ph)"
    unfolding u using distinct_card [OF dc] by simp
  finally show "length (staticColliders ph) + length (dynamicColliders ph) =
                length (colliders ph)" .
qed

lemma addColliders_wellFormed:
  assumes "wellFormed ph" and "distinct (map fst hcs)"
      and "set (map fst hcs) \<inter> set (colliders ph) = {}"
  shows "wellFormed (addColliders ph hcs) \<and>
         colliders (addColliders ph hcs) = colliders ph @ map fst hcs"
  using assms
proof (induction hcs arbitrary: ph)
  case Nil
  then show ?case by simp
next
  case (Cons hc hcs)
  obtain h c where hc: "hc = (h, c)" by (cases hc)
  from Cons.prems hc have fresh: "h \<notin> set (colliders ph)" by auto
  have w: "wellFormed (addCollider ph h c)"
    using Cons.prems(1) fresh by (rule wellFormed_addCollider)
  have d: "distinct (map fst hcs)" using Cons.prems(2) by simp
  have "set (map fst hcs) \<inter> set (colliders (addCollider ph h c)) = {}"
    using Cons.prems(2,3) hc by (auto simp: addCollider_colliders)
  from Cons.IH [OF w d this] show ?case by (simp add: hc addCollider_colliders)
qed

lemma removeColliders_wellFormed:
  assumes "wellFormed ph" and "distinct hs" and "set hs \<subseteq> set (colliders ph)"
  shows "wellFormed (removeColliders ph hs) \<and>
         set (colliders (removeColliders ph hs)) = set (colliders ph) - set hs \<and>
         length (colliders (removeColliders ph hs)) + length hs = length (colliders ph)"
  using assms
proof (induction hs arbitrary: ph)
  case Nil
  then show ?case by simp
next
  case (Cons h hs)
  have w: "wellFormed (removeCollider ph h)" using Cons.prems(1) by (rule wellFormed_removeCollider)
  have dc: "distinct (colliders ph)" using Cons.prems(1) by (simp add: wellFormed_def)
  have d: "distinct hs" and nh: "h \<notin> set hs" and hin: "h \<in> set (colliders ph)"
    using Cons.prems(2,3) by simp_all
  have s: "set (colliders (removeCollider ph h)) = set (colliders ph) - {h}"
    using dc by (simp add: removeCollider_colliders)
  have l: "length (colliders (removeCollider ph h)) + 1 = length (colliders ph)"
    using hin by (simp add: removeCollider_colliders length_remove1)
       (metis One_nat_def Suc_pred length_pos_if_in_set)
  have "set hs \<subseteq> set (colliders (removeCollider ph h))" using Cons.prems(3) nh s by auto
  from Cons.IH [OF w d this] s l show ?case by auto
qed

lemma addCollider_objects:
  "objects (addCollider ph h c) = (objects ph)(h := withDefaults c)"
  by (simp add: addCollider_def Let_def)

lemma removeCollider_objects: "objects (removeCollider ph h) = objects ph"
  by (simp add: removeCollider_def Let_def)

lemma removeColliders_objects: "objects (removeColliders ph hs) = objects ph"
  by (induction hs arbitrary: ph) (simp_all add: removeCollider_objects)

lemma addColliders_objects_other:
  "h \<notin> set (map fst hcs) \<Longrightarrow> objects (addColliders ph hcs) h = objects ph h"
  by (induction hcs arbitrary: ph) (auto simp: addCollider_objects)

lemma addColliders_objects:
  assumes "distinct (map fst hcs)" and "(h, c) \<in> set hcs"
  shows "objects (addColliders ph hcs) h = withDefaults c"
  using assms
proof (induction hcs arbitrary: ph)
  case Nil
  then show ?case by simp
next
  case (Cons hc hcs)
  obtain h' c' where hc: "hc = (h', c')" by (cases hc)
  show ?case
  proof (cases "(h, c) = (h', c')")
    case True
    with Cons.prems hc have "h \<notin> set (map fst hcs)" by auto
    from addColliders_objects_other [OF this, of "addCollider ph h c"] True hc
    show ?thesis by (simp add: addCollider_objects)
  next
    case False
    with Cons.prems hc have "(h, c) \<in> set hcs" and "distinct (map fst hcs)" by auto
    from Cons.IH [OF this(2,1)] hc show ?thesis by simp
  qed
qed

text \<open>
  Claim C1, amended. The engine has no queue and no flush: \<^verbatim>\<open>addCollider\<close> gives the
  body its defaults and pushes it on \<^verbatim>\<open>colliders\<close>, which \<^verbatim>\<open>raycast\<close> scans, and on
  the partition that its \<^verbatim>\<open>isStatic\<close> flag names, which \<^verbatim>\<open>update\<close> scans, and
  \<^verbatim>\<open>removeCollider\<close> deletes it from both, each at once. Registering bodies with new
  references in a well-formed registry makes all of them visible, each on its own
  partition only, and leaves the registry well-formed; removing some of them
  afterwards leaves exactly the others visible, in \<^verbatim>\<open>colliders\<close> and on their
  partitions, and the removed ones in none of the three arrays.
\<close>

theorem registration_is_immediate:
  assumes "wellFormed ph" and "distinct (map fst hcs)"
      and "set (map fst hcs) \<inter> set (colliders ph) = {}"
      and "distinct hs" and "set hs \<subseteq> set (map fst hcs)"
  shows "set (colliders (addColliders ph hcs)) = set (colliders ph) \<union> set (map fst hcs) \<and>
         set (colliders (removeColliders (addColliders ph hcs) hs)) =
           set (colliders ph) \<union> (set (map fst hcs) - set hs) \<and>
         length (colliders (removeColliders (addColliders ph hcs) hs)) + length hs =
           length (colliders ph) + length hcs \<and>
         set (staticColliders (removeColliders (addColliders ph hcs) hs)) \<union>
           set (dynamicColliders (removeColliders (addColliders ph hcs) hs)) =
           set (colliders (removeColliders (addColliders ph hcs) hs)) \<and>
         length (staticColliders (removeColliders (addColliders ph hcs) hs)) +
           length (dynamicColliders (removeColliders (addColliders ph hcs) hs)) =
           length (colliders (removeColliders (addColliders ph hcs) hs)) \<and>
         wellFormed (addColliders ph hcs) \<and>
         wellFormed (removeColliders (addColliders ph hcs) hs) \<and>
         ((h, c) \<in> set hcs \<longrightarrow>
            objects (addColliders ph hcs) h = withDefaults c \<and>
            (h \<in> set (staticColliders (addColliders ph hcs)) \<longleftrightarrow>
               isStatic (withDefaults c)) \<and>
            (h \<in> set (dynamicColliders (addColliders ph hcs)) \<longleftrightarrow>
               \<not> isStatic (withDefaults c)) \<and>
            (h \<notin> set hs \<longrightarrow>
               (h \<in> set (staticColliders (removeColliders (addColliders ph hcs) hs)) \<longleftrightarrow>
                  isStatic (withDefaults c)) \<and>
               (h \<in> set (dynamicColliders (removeColliders (addColliders ph hcs) hs)) \<longleftrightarrow>
                  \<not> isStatic (withDefaults c))) \<and>
            (h \<in> set hs \<longrightarrow>
               h \<notin> set (colliders (removeColliders (addColliders ph hcs) hs)) \<and>
               h \<notin> set (staticColliders (removeColliders (addColliders ph hcs) hs)) \<and>
               h \<notin> set (dynamicColliders (removeColliders (addColliders ph hcs) hs))))"
proof -
  let ?P = "addColliders ph hcs"
  let ?R = "removeColliders ?P hs"
  note a = addColliders_wellFormed [OF assms(1,2,3)]
  from a have w: "wellFormed ?P"
    and c: "colliders ?P = colliders ph @ map fst hcs" by simp_all
  have "set hs \<subseteq> set (colliders ?P)" using assms(5) c by auto
  note r = removeColliders_wellFormed [OF w assms(4) this]
  from r have w2: "wellFormed ?R" by simp
  note p = wellFormed_partition [OF w2]
  from assms(3,5) have "set (colliders ph) \<inter> set hs = {}" by auto
  with r c p have first: "set (colliders ?P) = set (colliders ph) \<union> set (map fst hcs) \<and>
         set (colliders ?R) = set (colliders ph) \<union> (set (map fst hcs) - set hs) \<and>
         length (colliders ?R) + length hs = length (colliders ph) + length hcs \<and>
         set (staticColliders ?R) \<union> set (dynamicColliders ?R) = set (colliders ?R) \<and>
         length (staticColliders ?R) + length (dynamicColliders ?R) = length (colliders ?R)"
    by auto
  have each: "objects ?P h = withDefaults c \<and>
            (h \<in> set (staticColliders ?P) \<longleftrightarrow> isStatic (withDefaults c)) \<and>
            (h \<in> set (dynamicColliders ?P) \<longleftrightarrow> \<not> isStatic (withDefaults c)) \<and>
            (h \<notin> set hs \<longrightarrow>
               (h \<in> set (staticColliders ?R) \<longleftrightarrow> isStatic (withDefaults c)) \<and>
               (h \<in> set (dynamicColliders ?R) \<longleftrightarrow> \<not> isStatic (withDefaults c))) \<and>
            (h \<in> set hs \<longrightarrow>
               h \<notin> set (colliders ?R) \<and> h \<notin> set (staticColliders ?R) \<and>
               h \<notin> set (dynamicColliders ?R))"
    if hc: "(h, c) \<in> set hcs"
  proof -
    have o: "objects ?P h = withDefaults c" using assms(2) hc by (rule addColliders_objects)
    have oR: "objects ?R h = withDefaults c" using o by (simp add: removeColliders_objects)
    have hin: "h \<in> set (colliders ?P)" using hc c by force
    have sP: "h \<in> set (staticColliders ?P) \<longleftrightarrow> isStatic (withDefaults c)"
      and dP: "h \<in> set (dynamicColliders ?P) \<longleftrightarrow> \<not> isStatic (withDefaults c)"
      using w hin o by (simp_all add: wellFormed_def)
    have cR: "h \<in> set (colliders ?R) \<longleftrightarrow> h \<notin> set hs" using r hin by auto
    have sR: "h \<in> set (staticColliders ?R) \<longleftrightarrow> h \<notin> set hs \<and> isStatic (withDefaults c)"
      and dR: "h \<in> set (dynamicColliders ?R) \<longleftrightarrow> h \<notin> set hs \<and> \<not> isStatic (withDefaults c)"
      using w2 cR oR by (simp_all add: wellFormed_def)
    from o sP dP cR sR dR show ?thesis by simp
  qed
  from first w w2 each show ?thesis by blast
qed

text \<open>
  Ten bodies registered and five of them removed: five are visible, with no flush.
  Body 5, a static one, is on \<^verbatim>\<open>staticColliders\<close> only, and body 1 is gone.
\<close>

theorem registration_is_immediate_witness:
  "wellFormed newPhysics \<and> distinct (map fst tenBodies) \<and>
   set (map fst tenBodies) \<inter> set (colliders newPhysics) = {} \<and>
   distinct [1, 3, 4, 6, 9 :: nat] \<and> set [1, 3, 4, 6, 9] \<subseteq> set (map fst tenBodies) \<and>
   length tenBodies = 10 \<and>
   length (colliders (addColliders newPhysics tenBodies)) = 10 \<and>
   length (colliders (removeColliders (addColliders newPhysics tenBodies) [1, 3, 4, 6, 9])) = 5 \<and>
   length (staticColliders
     (removeColliders (addColliders newPhysics tenBodies) [1, 3, 4, 6, 9])) +
   length (dynamicColliders
     (removeColliders (addColliders newPhysics tenBodies) [1, 3, 4, 6, 9])) = 5 \<and>
   wellFormed (removeColliders (addColliders newPhysics tenBodies) [1, 3, 4, 6, 9]) \<and>
   (5, rawBox 200 0 32 32 True) \<in> set tenBodies \<and> 5 \<notin> set [1, 3, 4, 6, 9 :: nat] \<and>
   isStatic (withDefaults (rawBox 200 0 32 32 True)) \<and>
   5 \<in> set (staticColliders
     (removeColliders (addColliders newPhysics tenBodies) [1, 3, 4, 6, 9])) \<and>
   5 \<notin> set (dynamicColliders
     (removeColliders (addColliders newPhysics tenBodies) [1, 3, 4, 6, 9])) \<and>
   (1, rawBox 40 0 32 32 True) \<in> set tenBodies \<and> 1 \<in> set [1, 3, 4, 6, 9 :: nat] \<and>
   1 \<notin> set (staticColliders
     (removeColliders (addColliders newPhysics tenBodies) [1, 3, 4, 6, 9]))"
proof -
  have h1: "wellFormed newPhysics" by (simp add: wellFormed_def new_defs)
  have h2: "distinct (map fst tenBodies)" by (simp add: tenBodies_def)
  have h3: "set (map fst tenBodies) \<inter> set (colliders newPhysics) = {}"
    by (simp add: new_defs)
  have h4: "distinct [1, 3, 4, 6, 9 :: nat]" by simp
  have h5: "set [1, 3, 4, 6, 9] \<subseteq> set (map fst tenBodies)" by (simp add: tenBodies_def)
  have l: "length tenBodies = 10" "length (colliders newPhysics) = 0"
    by (simp_all add: tenBodies_def new_defs)
  have m: "(5, rawBox 200 0 32 32 True) \<in> set tenBodies"
    "(1, rawBox 40 0 32 32 True) \<in> set tenBodies"
    by (simp_all add: tenBodies_def)
  have n: "5 \<notin> set [1, 3, 4, 6, 9 :: nat]" "1 \<in> set [1, 3, 4, 6, 9 :: nat]"
    "isStatic (withDefaults (rawBox 200 0 32 32 True))"
    by (simp_all add: box_defs)
  have a: "length (colliders (addColliders newPhysics tenBodies)) = 10"
    using addColliders_wellFormed [OF h1 h2 h3] l by simp
  note t5 = registration_is_immediate [OF h1 h2 h3 h4 h5, of 5 "rawBox 200 0 32 32 True"]
  note t1 = registration_is_immediate [OF h1 h2 h3 h4 h5, of 1 "rawBox 40 0 32 32 True"]
  from t5 l have c: "length (colliders
      (removeColliders (addColliders newPhysics tenBodies) [1, 3, 4, 6, 9])) = 5"
    by simp
  from t5 c have p: "length (staticColliders
     (removeColliders (addColliders newPhysics tenBodies) [1, 3, 4, 6, 9])) +
   length (dynamicColliders
     (removeColliders (addColliders newPhysics tenBodies) [1, 3, 4, 6, 9])) = 5"
    by simp
  from t5 have w: "wellFormed (removeColliders (addColliders newPhysics tenBodies) [1, 3, 4, 6, 9])"
    by blast
  from t5 m(1) n(1,3) have s5: "5 \<in> set (staticColliders
     (removeColliders (addColliders newPhysics tenBodies) [1, 3, 4, 6, 9]))"
    "5 \<notin> set (dynamicColliders
     (removeColliders (addColliders newPhysics tenBodies) [1, 3, 4, 6, 9]))"
    by blast+
  from t1 m(2) n(2) have s1: "1 \<notin> set (staticColliders
     (removeColliders (addColliders newPhysics tenBodies) [1, 3, 4, 6, 9]))"
    by blast
  from h1 h2 h3 h4 h5 l a c p w m n s5 s1 show ?thesis by simp
qed

text \<open>
  Claim C1 as stated fails: there is no flush to wait for. Right after the ten calls
  of \<^verbatim>\<open>addCollider\<close> and the five calls of \<^verbatim>\<open>removeCollider\<close> the arrays hold the five
  remaining bodies, not none, and a ray cast right after a call of \<^verbatim>\<open>addCollider\<close>
  hits the new body.
\<close>

theorem registration_deferred_counterexample:
  "colliders (removeColliders (addColliders newPhysics tenBodies) [1, 3, 4, 6, 9]) =
     [0, 2, 5, 7, 8] \<and>
   staticColliders (removeColliders (addColliders newPhysics tenBodies) [1, 3, 4, 6, 9]) =
     [5, 7] \<and>
   dynamicColliders (removeColliders (addColliders newPhysics tenBodies) [1, 3, 4, 6, 9]) =
     [0, 2, 8] \<and>
   colliders (addCollider newPhysics 7 (rawBox 50 0 32 32 True)) = [7] \<and>
   raycast (addCollider newPhysics 7 (rawBox 50 0 32 32 True)) 0 16 100 16 0xFFFF \<noteq> None"
proof -
  have "colliders (removeColliders (addColliders newPhysics tenBodies) [1, 3, 4, 6, 9]) =
     [0, 2, 5, 7, 8]"
    and "staticColliders (removeColliders (addColliders newPhysics tenBodies) [1, 3, 4, 6, 9]) =
     [5, 7]"
    and "dynamicColliders (removeColliders (addColliders newPhysics tenBodies) [1, 3, 4, 6, 9]) =
     [0, 2, 8]"
    by (simp_all add: tenBodies_def addCollider_def removeCollider_def box_defs new_defs Let_def)
  moreover have "colliders (addCollider newPhysics 7 (rawBox 50 0 32 32 True)) = [7]"
    by (simp add: addCollider_def new_defs Let_def)
  moreover have
    "raycast (addCollider newPhysics 7 (rawBox 50 0 32 32 True)) 0 16 100 16 0xFFFF \<noteq> None"
    by (simp add: raycast_def raycastStep_def raycastCollider_def slabX_def slabY_def
        addCollider_def box_defs new_defs Let_def numMax_def numMin_def numLess_def)
  ultimately show ?thesis by simp
qed

end
